theory Spec2Isabelle
  imports Main
begin

section \<open>Syntax trees\<close>

text \<open>
  The program works on ESTree syntax trees as the parser builds them: JavaScript objects
  with a \<open>type\<close> tag, scalar fields (an operator, a name, a literal value) and fields that
  hold one child node, an array of child nodes, or \<open>null\<close>.

  A node is modelled by its kind, the list of its scalar fields and the list of its child
  fields in the order in which the traversal visits them. A child field holding one node
  is a one-element list, an array is the list of its elements and \<open>null\<close> is the empty
  list. Source positions and the \<open>raw\<close> text of literals are not part of the model.

  The two kinds the driver treats as statement sequences, \<open>Program\<close> and
  \<open>BlockStatement\<close>, have the single field \<open>body\<close> and are constructors of their own. The
  three placeholder kinds of compiled patterns are nodes as well, as in the source, where
  a pattern is a syntax tree with extra node types.
\<close>

datatype scalar = Str string | Num int | Bool bool | Null

datatype kind =
    Identifier | Literal | ThisExpression | ArrayExpression | ObjectExpression | Property
  | FunctionExpression | UnaryExpression | UpdateExpression | BinaryExpression
  | AssignmentExpression | LogicalExpression | MemberExpression | ConditionalExpression
  | CallExpression | NewExpression | SequenceExpression
  | ExpressionStatement | VariableDeclaration | VariableDeclarator
  | ReturnStatement | ThrowStatement | BreakStatement | ContinueStatement
  | IfStatement | WhileStatement | DoWhileStatement
  | ForStatement | ForInStatement | ForOfStatement
  | SwitchStatement | SwitchCase | TryStatement | CatchClause
  | LabeledStatement | FunctionDeclaration

datatype node =
    Node kind "scalar list" "node list list"
  | Program "node list"
  | BlockStatement "node list"
  | GenericPlaceholder nat
  | StatementPlaceholder nat bool
  | ExpressionPlaceholder nat bool

text \<open>
  The layouts of the kinds that the driver and its rule table build or inspect. Every
  other kind keeps its fields in the visiting order of the traversal library.
\<close>

abbreviation identifier_node :: "string \<Rightarrow> node" where
  "identifier_node name \<equiv> Node Identifier [Str name] []"

abbreviation literal :: "scalar \<Rightarrow> node" where
  "literal v \<equiv> Node Literal [v] []"

abbreviation unary :: "string \<Rightarrow> node \<Rightarrow> node" where
  "unary operator argument \<equiv> Node UnaryExpression [Str operator] [[argument]]"

abbreviation logical :: "string \<Rightarrow> node \<Rightarrow> node \<Rightarrow> node" where
  "logical operator left right \<equiv> Node LogicalExpression [Str operator] [[left], [right]]"

abbreviation conditional :: "node \<Rightarrow> node \<Rightarrow> node \<Rightarrow> node" where
  "conditional test consequent alternate \<equiv>
     Node ConditionalExpression [] [[test], [consequent], [alternate]]"

abbreviation member :: "node \<Rightarrow> string \<Rightarrow> node" where
  "member object property \<equiv>
     Node MemberExpression [Bool False] [[object], [identifier_node property]]"

abbreviation object_with :: "string \<Rightarrow> node \<Rightarrow> node" where
  "object_with key v \<equiv>
     Node ObjectExpression []
       [[Node Property [Str ''init'', Bool False, Bool False, Bool False]
           [[identifier_node key], [v]]]]"

abbreviation sequence :: "node list \<Rightarrow> node" where
  "sequence expressions \<equiv> Node SequenceExpression [] [expressions]"

abbreviation expression_statement :: "node \<Rightarrow> node" where
  "expression_statement expression \<equiv> Node ExpressionStatement [] [[expression]]"

abbreviation return_statement :: "node \<Rightarrow> node" where
  "return_statement argument \<equiv> Node ReturnStatement [] [[argument]]"

abbreviation if_statement :: "node \<Rightarrow> node \<Rightarrow> node list \<Rightarrow> node" where
  "if_statement test consequent alternate \<equiv>
     Node IfStatement [] [[test], [consequent], alternate]"

abbreviation while_statement :: "node \<Rightarrow> node \<Rightarrow> node" where
  "while_statement test body \<equiv> Node WhileStatement [] [[test], [body]]"

abbreviation do_while_statement :: "node \<Rightarrow> node \<Rightarrow> node" where
  "do_while_statement body test \<equiv> Node DoWhileStatement [] [[body], [test]]"

abbreviation for_statement :: "node \<Rightarrow> node \<Rightarrow> node \<Rightarrow> node \<Rightarrow> node" where
  "for_statement init test update body \<equiv>
     Node ForStatement [] [[init], [test], [update], [body]]"

abbreviation for_in_statement :: "node \<Rightarrow> node \<Rightarrow> node \<Rightarrow> node" where
  "for_in_statement left right body \<equiv> Node ForInStatement [] [[left], [right], [body]]"

abbreviation for_of_statement :: "node \<Rightarrow> node \<Rightarrow> node \<Rightarrow> node" where
  "for_of_statement left right body \<equiv> Node ForOfStatement [] [[left], [right], [body]]"

abbreviation function_declaration :: "node \<Rightarrow> node list \<Rightarrow> node list \<Rightarrow> node" where
  "function_declaration name params body \<equiv>
     Node FunctionDeclaration [Bool False, Bool False] [[name], params, [BlockStatement body]]"

section \<open>Outcomes\<close>

text \<open>
  A call of the driver returns, throws, or does not return. The last case is a value of
  its own, so that a statement about a result is never satisfied by a missing result.
\<close>

datatype error =
    MissingBinding string nat
  | InvalidBinding string nat
  | UnknownNodeType
  | TypeError
  | SystemError string

datatype 'a outcome = Returns 'a | Throws error | NoReturn

fun visit_each :: "('a \<Rightarrow> 'b outcome) \<Rightarrow> 'a list \<Rightarrow> 'b list outcome" where
  "visit_each f [] = Returns []"
| "visit_each f (x # xs) =
     (case f x of
        Returns y \<Rightarrow>
          (case visit_each f xs of
             Returns ys \<Rightarrow> Returns (y # ys)
           | Throws e \<Rightarrow> Throws e
           | NoReturn \<Rightarrow> NoReturn)
      | Throws e \<Rightarrow> Throws e
      | NoReturn \<Rightarrow> NoReturn)"

section \<open>Writing the result: \<open>lib/io.js\<close>\<close>

text \<open>
  \<open>path.dirname\<close> of the platform library, in its POSIX form: the scan runs from the last
  character down to index 1 and stops at the first slash that follows a character which
  is not a slash.
\<close>

fun scan_back :: "string \<Rightarrow> nat \<Rightarrow> bool \<Rightarrow> nat option" where
  "scan_back path 0 matchedSlash = None"
| "scan_back path (Suc i) matchedSlash =
     (if path ! Suc i = CHR ''/''
      then (if \<not> matchedSlash then Some (Suc i) else scan_back path i matchedSlash)
      else scan_back path i False)"

definition dirname :: "string \<Rightarrow> string" where
  "dirname path =
     (if path = [] then ''.''
      else
        let hasRoot = (hd path = CHR ''/'') in
        case scan_back path (length path - 1) True of
          None \<Rightarrow> if hasRoot then ''/'' else ''.''
        | Some e \<Rightarrow> if hasRoot \<and> e = 1 then ''//'' else take e path)"

text \<open>
  The file system is the platform's, and nothing is assumed of it. The two calls that
  \<open>ensureParentDirExists\<close> makes are parameters: \<open>existsSync\<close> answers whether a path
  exists in a state of the file system, however it resolves the path, and \<open>mkdirSync\<close>
  gives the state with the directory made or the error it throws (\<open>SystemError\<close>, as for
  a parent that is a regular file).
\<close>

text \<open>
  \<open>ensureParentDirExists\<close> calls itself on the parent directory before it looks at the
  file system. The recursion is the source's; a call that does not return has the value
  \<open>None\<close>, a call that ends has the state it leaves or the error thrown.
\<close>

partial_function (option) ensureParentDirExists ::
  "('fs \<Rightarrow> string \<Rightarrow> bool) \<Rightarrow> ('fs \<Rightarrow> string \<Rightarrow> error + 'fs) \<Rightarrow> string \<Rightarrow> 'fs \<Rightarrow>
   (error + 'fs) option" where
  "ensureParentDirExists existsSync mkdirSync filepath fs =
     (let dir = dirname filepath in
      if dir = [] \<or> dir = ''.'' then Some (Inr fs)
      else
        Option.bind (ensureParentDirExists existsSync mkdirSync dir fs)
          (\<lambda>r. case r of
                 Inl e \<Rightarrow> Some (Inl e)
               | Inr fs1 \<Rightarrow>
                   Some (if \<not> existsSync fs1 dir then mkdirSync fs1 dir else Inr fs1)))"

section \<open>The pattern engine: \<open>lib/patterns.js\<close>\<close>

text \<open>
  The driver imports \<open>compile\<close>, \<open>matches\<close> and \<open>fill\<close> from \<open>lib/patterns.js\<close>. That file
  is not among the sources, only its tests are; the three operations are modelled from
  the specification and from these tests.
\<close>

text \<open>
  A placeholder key is the placeholder's family and index, as in \<open>expression2\<close>. A generic
  placeholder binds the name of an identifier, the two others bind a subtree.
\<close>

datatype family = Generic | Statement | Expression

type_synonym key = "family \<times> nat"

datatype binding = Name string | Subtree node

type_synonym environment = "key \<rightharpoonup> binding"

text \<open>
  Modelled from the spec: the classification of node kinds that the placeholders of
  \<open>lib/patterns.js\<close> test. The compound family is the one the specification lists for
  \<open>expectMultiLine\<close> (conditional, loop forms, block, switch, try, labeled, nested
  function), the atomic family is expression statement, declaration and
  return/throw/break/continue.
\<close>

fun is_compound :: "node \<Rightarrow> bool" where
  "is_compound (BlockStatement body) = True"
| "is_compound (Node k s slots) =
     (k = IfStatement \<or> k = WhileStatement \<or> k = DoWhileStatement \<or> k = ForStatement \<or>
      k = ForInStatement \<or> k = ForOfStatement \<or> k = SwitchStatement \<or> k = TryStatement \<or>
      k = LabeledStatement \<or> k = FunctionDeclaration)"
| "is_compound n = False"

fun is_atomic :: "node \<Rightarrow> bool" where
  "is_atomic (Node k s slots) =
     (k = ExpressionStatement \<or> k = VariableDeclaration \<or> k = ReturnStatement \<or>
      k = ThrowStatement \<or> k = BreakStatement \<or> k = ContinueStatement)"
| "is_atomic n = False"

definition is_statement :: "node \<Rightarrow> bool" where
  "is_statement n = (is_compound n \<or> is_atomic n)"

fun is_declaration :: "node \<Rightarrow> bool" where
  "is_declaration (Node k s slots) = (k = VariableDeclaration)"
| "is_declaration n = False"

fun is_expression :: "node \<Rightarrow> bool" where
  "is_expression (Node k s slots) =
     (k = Identifier \<or> k = Literal \<or> k = ThisExpression \<or> k = ArrayExpression \<or>
      k = ObjectExpression \<or> k = FunctionExpression \<or> k = UnaryExpression \<or>
      k = UpdateExpression \<or> k = BinaryExpression \<or> k = AssignmentExpression \<or>
      k = LogicalExpression \<or> k = MemberExpression \<or> k = ConditionalExpression \<or>
      k = CallExpression \<or> k = NewExpression \<or> k = SequenceExpression)"
| "is_expression n = False"

definition identifier_name :: "node \<Rightarrow> string option" where
  "identifier_name n =
     (case n of
        Node k s slots \<Rightarrow>
          if k = Identifier \<and> slots = []
          then (case s of [Str name] \<Rightarrow> Some name | _ \<Rightarrow> None)
          else None
      | _ \<Rightarrow> None)"

text \<open>
  Modelled from the spec: binding a placeholder key. The first occurrence of a key
  records the value; a later occurrence re-checks it, by equality of names or of
  subtrees.
\<close>

definition bind_key :: "key \<Rightarrow> binding \<Rightarrow> environment \<Rightarrow> environment option" where
  "bind_key k v env =
     (case env k of
        None \<Rightarrow> Some (env(k \<mapsto> v))
      | Some bound \<Rightarrow> if bound = v then Some env else None)"

text \<open>
  Modelled from the spec: \<open>matches\<close> of \<open>lib/patterns.js\<close>, the synchronized descent over
  pattern and node. The environment collected so far is passed along; \<open>None\<close> is
  no-match.
\<close>

fun matches_node :: "node \<Rightarrow> node \<Rightarrow> environment \<Rightarrow> environment option"
  and matches_list :: "node list \<Rightarrow> node list \<Rightarrow> environment \<Rightarrow> environment option"
  and matches_slots :: "node list list \<Rightarrow> node list list \<Rightarrow> environment \<Rightarrow> environment option"
where
  "matches_node (GenericPlaceholder i) n env =
     (case identifier_name n of
        Some name \<Rightarrow> bind_key (Generic, i) (Name name) env
      | None \<Rightarrow> None)"
| "matches_node (StatementPlaceholder i expectMultiLine) n env =
     (if is_statement n \<and> (if expectMultiLine then is_compound n else True)
      then bind_key (Statement, i) (Subtree n) env
      else None)"
| "matches_node (ExpressionPlaceholder i allowDeclarations) n env =
     (if is_expression n \<or> (allowDeclarations \<and> is_declaration n)
      then bind_key (Expression, i) (Subtree n) env
      else None)"
| "matches_node (Node k s slots) n env =
     (case n of
        Node k' s' slots' \<Rightarrow> if k = k' \<and> s = s' then matches_slots slots slots' env else None
      | _ \<Rightarrow> None)"
| "matches_node (Program body) n env =
     (case n of Program body' \<Rightarrow> matches_list body body' env | _ \<Rightarrow> None)"
| "matches_node (BlockStatement body) n env =
     (case n of BlockStatement body' \<Rightarrow> matches_list body body' env | _ \<Rightarrow> None)"
| "matches_list [] ns env = (if ns = [] then Some env else None)"
| "matches_list (p # ps) ns env =
     (case ns of
        [] \<Rightarrow> None
      | n # ns' \<Rightarrow>
          (case matches_node p n env of
             None \<Rightarrow> None
           | Some env' \<Rightarrow> matches_list ps ns' env'))"
| "matches_slots [] nss env = (if nss = [] then Some env else None)"
| "matches_slots (ps # pss) nss env =
     (case nss of
        [] \<Rightarrow> None
      | ns # nss' \<Rightarrow>
          (case matches_list ps ns env of
             None \<Rightarrow> None
           | Some env' \<Rightarrow> matches_slots pss nss' env'))"

text \<open>
  Modelled from the spec: the entry point \<open>matches(pattern, node)\<close>, which starts from the
  empty environment.
\<close>

definition matches :: "node \<Rightarrow> node \<Rightarrow> environment option" where
  "matches pattern n = matches_node pattern n Map.empty"

text \<open>
  Modelled from the spec: \<open>fill\<close> of \<open>lib/patterns.js\<close>. A generic placeholder becomes an
  identifier with the bound name, a statement or expression placeholder becomes the
  bound subtree, and a key without a binding is the missing-binding error. A name bound
  where a subtree is needed, or a subtree where a name is needed, is an error as well.
  The first error met in field order is the one raised.
\<close>

fun fill :: "node \<Rightarrow> environment \<Rightarrow> error + node"
  and fill_list :: "node list \<Rightarrow> environment \<Rightarrow> error + node list"
  and fill_slots :: "node list list \<Rightarrow> environment \<Rightarrow> error + node list list"
where
  "fill (GenericPlaceholder i) env =
     (case env (Generic, i) of
        None \<Rightarrow> Inl (MissingBinding ''placeholder'' i)
      | Some (Name name) \<Rightarrow> Inr (identifier_node name)
      | Some (Subtree t) \<Rightarrow> Inl (InvalidBinding ''placeholder'' i))"
| "fill (StatementPlaceholder i expectMultiLine) env =
     (case env (Statement, i) of
        None \<Rightarrow> Inl (MissingBinding ''statement'' i)
      | Some (Subtree t) \<Rightarrow> Inr t
      | Some (Name name) \<Rightarrow> Inl (InvalidBinding ''statement'' i))"
| "fill (ExpressionPlaceholder i allowDeclarations) env =
     (case env (Expression, i) of
        None \<Rightarrow> Inl (MissingBinding ''expression'' i)
      | Some (Subtree t) \<Rightarrow> Inr t
      | Some (Name name) \<Rightarrow> Inl (InvalidBinding ''expression'' i))"
| "fill (Node k s slots) env =
     (case fill_slots slots env of Inl e \<Rightarrow> Inl e | Inr slots' \<Rightarrow> Inr (Node k s slots'))"
| "fill (Program body) env =
     (case fill_list body env of Inl e \<Rightarrow> Inl e | Inr body' \<Rightarrow> Inr (Program body'))"
| "fill (BlockStatement body) env =
     (case fill_list body env of Inl e \<Rightarrow> Inl e | Inr body' \<Rightarrow> Inr (BlockStatement body'))"
| "fill_list [] env = Inr []"
| "fill_list (t # ts) env =
     (case fill t env of
        Inl e \<Rightarrow> Inl e
      | Inr n \<Rightarrow> (case fill_list ts env of Inl e \<Rightarrow> Inl e | Inr ns \<Rightarrow> Inr (n # ns)))"
| "fill_slots [] env = Inr []"
| "fill_slots (ts # tss) env =
     (case fill_list ts env of
        Inl e \<Rightarrow> Inl e
      | Inr ns \<Rightarrow> (case fill_slots tss env of Inl e \<Rightarrow> Inl e | Inr nss \<Rightarrow> Inr (ns # nss)))"

text \<open>The placeholder keys a template refers to.\<close>

fun placeholders :: "node \<Rightarrow> key set"
  and placeholders_list :: "node list \<Rightarrow> key set"
  and placeholders_slots :: "node list list \<Rightarrow> key set"
where
  "placeholders (GenericPlaceholder i) = {(Generic, i)}"
| "placeholders (StatementPlaceholder i expectMultiLine) = {(Statement, i)}"
| "placeholders (ExpressionPlaceholder i allowDeclarations) = {(Expression, i)}"
| "placeholders (Node k s slots) = placeholders_slots slots"
| "placeholders (Program body) = placeholders_list body"
| "placeholders (BlockStatement body) = placeholders_list body"
| "placeholders_list [] = {}"
| "placeholders_list (t # ts) = placeholders t \<union> placeholders_list ts"
| "placeholders_slots [] = {}"
| "placeholders_slots (ts # tss) = placeholders_list ts \<union> placeholders_slots tss"

section \<open>The rewrite driver: \<open>lib/rewriteCode.js\<close>\<close>

subsection \<open>The rule table\<close>

text \<open>
  Modelled from the spec: the result of \<open>compile\<close> (of \<open>lib/patterns.js\<close>, which is not
  among the sources) on the texts of the table. \<open>rewritePatterns\<close> is a table of thirteen
  pairs of source texts, each compiled when the module is loaded. The trees below are the
  compiled forms, in the order of the table: the syntax tree of the text, with
  \<open>placeholderN\<close> read as a generic placeholder, \<open>statementN\<close> (as a statement of its own)
  as a statement placeholder and \<open>expressionN\<close> as an expression placeholder, \<open>.multiLine\<close>
  and \<open>.orDeclaration\<close> setting the modifier.
\<close>

definition interop_helper :: "node \<Rightarrow> node \<Rightarrow> node" where
  "interop_helper name obj =
     function_declaration name [obj]
       [return_statement
          (conditional (logical ''&&'' obj (member obj ''__esModule''))
             obj
             (object_with ''default'' obj))]"

definition rewritePatterns :: "(node \<times> node) list" where
  "rewritePatterns =
     [(unary ''!'' (literal (Num 1)), literal (Bool False)),
      (unary ''!'' (literal (Num 0)), literal (Bool True)),
      (unary ''void'' (literal (Num 0)), identifier_node ''undefined''),
      (expression_statement
         (logical ''&&'' (ExpressionPlaceholder 1 False) (ExpressionPlaceholder 2 False)),
       if_statement (ExpressionPlaceholder 1 False)
         (expression_statement (ExpressionPlaceholder 2 False)) []),
      (expression_statement
         (logical ''||'' (ExpressionPlaceholder 1 False) (ExpressionPlaceholder 2 False)),
       if_statement (unary ''!'' (ExpressionPlaceholder 1 False))
         (expression_statement (ExpressionPlaceholder 2 False)) []),
      (expression_statement
         (conditional (ExpressionPlaceholder 1 False) (ExpressionPlaceholder 2 False)
            (ExpressionPlaceholder 3 False)),
       if_statement (ExpressionPlaceholder 1 False)
         (expression_statement (ExpressionPlaceholder 2 False))
         [expression_statement (ExpressionPlaceholder 3 False)]),
      (if_statement (ExpressionPlaceholder 1 False) (StatementPlaceholder 1 True) [],
       if_statement (ExpressionPlaceholder 1 False)
         (BlockStatement [StatementPlaceholder 1 False]) []),
      (while_statement (ExpressionPlaceholder 1 False) (StatementPlaceholder 1 True),
       while_statement (ExpressionPlaceholder 1 False)
         (BlockStatement [StatementPlaceholder 1 False])),
      (do_while_statement (StatementPlaceholder 1 True) (ExpressionPlaceholder 1 False),
       do_while_statement (BlockStatement [StatementPlaceholder 1 False])
         (ExpressionPlaceholder 1 False)),
      (for_statement (ExpressionPlaceholder 1 True) (ExpressionPlaceholder 2 False)
         (ExpressionPlaceholder 3 False) (StatementPlaceholder 1 True),
       for_statement (ExpressionPlaceholder 1 False) (ExpressionPlaceholder 2 False)
         (ExpressionPlaceholder 3 False) (BlockStatement [StatementPlaceholder 1 False])),
      (for_in_statement (ExpressionPlaceholder 1 True) (ExpressionPlaceholder 2 False)
         (StatementPlaceholder 1 True),
       for_in_statement (ExpressionPlaceholder 1 False) (ExpressionPlaceholder 2 False)
         (BlockStatement [StatementPlaceholder 1 False])),
      (for_of_statement (ExpressionPlaceholder 1 True) (ExpressionPlaceholder 2 False)
         (StatementPlaceholder 1 True),
       for_of_statement (ExpressionPlaceholder 1 False) (ExpressionPlaceholder 2 False)
         (BlockStatement [StatementPlaceholder 1 False])),
      (interop_helper (GenericPlaceholder 1) (GenericPlaceholder 2),
       interop_helper (identifier_node ''_interopRequireDefault'') (identifier_node ''obj''))]"

subsection \<open>Scopes\<close>

text \<open>
  The scope analysis is a library. The driver uses three things of it: the scope that a
  function node opens (\<open>acquire\<close>), the enclosing scope (\<open>upper\<close>), and that scope's table
  from names to variables (\<open>set\<close>). A variable is identified by a number.
\<close>

type_synonym variable = nat

datatype scope = Scope (set_map: "string \<rightharpoonup> variable") (upper: "scope option")

type_synonym scope_manager = "node \<Rightarrow> scope option"

text \<open>The text of a number, as string concatenation builds it in \<open>result.id.name + i\<close>.\<close>

fun to_string :: "nat \<Rightarrow> string" where
  "to_string n =
     (if n < 10 then [''0123456789'' ! n]
      else to_string (n div 10) @ [''0123456789'' ! (n mod 10)])"

declare to_string.simps [simp del]

text \<open>
  The loop of lines 80 to 82:
  \<^verbatim>\<open>let i = 1; while (scope.set.has(newName)) newName = result.id.name + i;\<close>
  with \<open>name\<close> for \<open>result.id.name\<close>. The body assigns \<open>newName\<close> only.
\<close>

partial_function (option) while_taken ::
  "scope \<Rightarrow> string \<Rightarrow> nat \<Rightarrow> string \<Rightarrow> string option" where
  "while_taken scope name i newName =
     (if set_map scope newName \<noteq> None
      then while_taken scope name i (name @ to_string i)
      else Some newName)"

declare while_taken.simps [code]

text \<open>
  Reading and writing \<open>id.name\<close> of a node: \<open>id\<close> is the first child field, and it holds
  an identifier.
\<close>

definition id_name :: "node \<Rightarrow> string option" where
  "id_name n =
     (case n of
        Node k s ([i] # slots) \<Rightarrow> identifier_name i
      | _ \<Rightarrow> None)"

definition set_id_name :: "node \<Rightarrow> string \<Rightarrow> node" where
  "set_id_name n newName =
     (case n of
        Node k s ([i] # slots) \<Rightarrow> Node k s ([identifier_node newName] # slots)
      | _ \<Rightarrow> n)"

fun is_function_declaration :: "node \<Rightarrow> bool" where
  "is_function_declaration (Node k s slots) = (k = FunctionDeclaration)"
| "is_function_declaration n = False"

text \<open>
  \<open>renameVariable\<close> comes from \<open>utils.js\<close>, which is not among the sources. Its call is
  recorded with its two arguments, the variable found under the old name (if any) and the
  new name; what it changes in the tree is not modelled.
\<close>

type_synonym rename = "variable option \<times> string"

text \<open>
  Lines 77 to 84, for a matched function declaration \<open>node\<close> and the filled replacement
  \<open>result\<close>: the new name is given to \<open>result\<close>, and the rename is recorded.
\<close>

definition rename_declaration ::
  "scope_manager \<Rightarrow> node \<Rightarrow> node \<Rightarrow> (node \<times> rename) outcome" where
  "rename_declaration scopeManager n result =
     (case scopeManager n of
        None \<Rightarrow> Throws TypeError
      | Some acquired \<Rightarrow>
          (case upper acquired of
             None \<Rightarrow> Throws TypeError
           | Some scope \<Rightarrow>
               (case id_name n of
                  None \<Rightarrow> Throws TypeError
                | Some oldName \<Rightarrow>
                    (case id_name result of
                       None \<Rightarrow> Throws TypeError
                     | Some name \<Rightarrow>
                         (case while_taken scope name 1 name of
                            None \<Rightarrow> NoReturn
                          | Some newName \<Rightarrow>
                              Returns (set_id_name result newName,
                                       (set_map scope oldName, newName)))))))"

subsection \<open>The two hooks\<close>

text \<open>
  What \<open>enter\<close> hands back to the traversal: the node that replaces the visited one
  (\<open>None\<close> when the hook returns nothing and the node stays), and the rename it made.
\<close>

type_synonym visit = "node option \<times> rename option"

text \<open>
  The test of line 52, \<open>node.type == "ExpressionStatement" && node.expression.type ==
  "SequenceExpression"\<close>, together with the read of \<open>node.expression.expressions\<close>.
\<close>

definition sequence_expressions :: "node \<Rightarrow> node list option" where
  "sequence_expressions n =
     (case n of
        Node k s slots \<Rightarrow>
          if k = ExpressionStatement
          then (case slots of
                  [[Node k' s' [expressions]]] \<Rightarrow>
                    if k' = SequenceExpression then Some expressions else None
                | _ \<Rightarrow> None)
          else None
      | _ \<Rightarrow> None)"

text \<open>The loop over the rule table, lines 68 to 87: the first pattern that matches decides.\<close>

fun apply_rules :: "scope_manager \<Rightarrow> (node \<times> node) list \<Rightarrow> node \<Rightarrow> visit outcome" where
  "apply_rules scopeManager [] n = Returns (None, None)"
| "apply_rules scopeManager ((pattern, replacement) # rules) n =
     (case matches pattern n of
        None \<Rightarrow> apply_rules scopeManager rules n
      | Some found \<Rightarrow>
          (case fill replacement found of
             Inl e \<Rightarrow> Throws e
           | Inr result \<Rightarrow>
               if is_function_declaration n \<and> is_function_declaration result
               then
                 (case rename_declaration scopeManager n result of
                    Returns (renamed, r) \<Rightarrow> Returns (Some renamed, Some r)
                  | Throws e \<Rightarrow> Throws e
                  | NoReturn \<Rightarrow> NoReturn)
               else Returns (Some result, None)))"

definition enter :: "scope_manager \<Rightarrow> node \<Rightarrow> visit outcome" where
  "enter scopeManager n =
     (case sequence_expressions n of
        Some expressions \<Rightarrow>
          Returns (Some (Program (map expression_statement expressions)), None)
      | None \<Rightarrow> apply_rules scopeManager rewritePatterns n)"

text \<open>
  The loop of lines 96 to 103 over \<open>node.body\<close>: a container at index \<open>i\<close> is replaced by
  its statements and the same index is looked at again.
\<close>

function splice_containers :: "node list \<Rightarrow> nat \<Rightarrow> node list" where
  "splice_containers body i =
     (if i < length body
      then
        (case body ! i of
           Program inner \<Rightarrow> splice_containers (take i body @ inner @ drop (Suc i) body) i
         | _ \<Rightarrow> splice_containers body (Suc i))
      else body)"
  by pat_completeness auto
termination
proof (relation "measure (\<lambda>(body, i). size_list size (drop i body))", goal_cases)
  case 1
  show ?case by simp
next
  case (3 body i inner)
  with Cons_nth_drop_Suc [of i body]
  have "drop i body = Program inner # drop (Suc i) body"
    by simp
  with 3 show ?case by (simp add: size_list_append)
qed (simp_all add: Cons_nth_drop_Suc [symmetric])

declare splice_containers.simps [simp del]

fun is_block_like :: "node \<Rightarrow> bool" where
  "is_block_like (BlockStatement body) = True"
| "is_block_like (Program body) = True"
| "is_block_like n = False"

text \<open>
  The \<open>leave\<close> hook: a container whose parent is neither a block nor a program becomes a
  block; then the body of a block or program is flattened.
\<close>

definition leave :: "node \<Rightarrow> node \<Rightarrow> node" where
  "leave n parent =
     (let n1 = (case n of
                  Program body \<Rightarrow> if \<not> is_block_like parent then BlockStatement body else n
                | _ \<Rightarrow> n)
      in case n1 of
           BlockStatement body \<Rightarrow> BlockStatement (splice_containers body 0)
         | Program body \<Rightarrow> Program (splice_containers body 0)
         | _ \<Rightarrow> n1)"

subsection \<open>The traversal\<close>

text \<open>
  \<open>estraverse.replace\<close> is a library. It calls \<open>enter\<close> on a node, puts the returned
  node in its place, visits the children of the node now in place, field by field and
  left to right, and then calls \<open>leave\<close> with that node and its parent. For the root the
  parent handed to \<open>leave\<close> is the root itself. A node type without visitor keys, as a
  placeholder is, makes it throw.

  The fuel bounds the depth of the visit; with no fuel left the call has not returned.
  The rename that \<open>enter\<close> records is not applied to the tree (see \<open>rename\<close> above), so
  the identifiers of the returned tree are those before any renaming.
\<close>

fun traverse :: "nat \<Rightarrow> scope_manager \<Rightarrow> node \<Rightarrow> node option \<Rightarrow> node outcome" where
  "traverse 0 scopeManager n parent = NoReturn"
| "traverse (Suc fuel) scopeManager n parent =
     (case enter scopeManager n of
        NoReturn \<Rightarrow> NoReturn
      | Throws e \<Rightarrow> Throws e
      | Returns (target, r) \<Rightarrow>
          (let current = (case target of None \<Rightarrow> n | Some t \<Rightarrow> t);
               up = (case parent of None \<Rightarrow> current | Some p \<Rightarrow> p)
           in case current of
                Program body \<Rightarrow>
                  (case visit_each (\<lambda>c. traverse fuel scopeManager c (Some current)) body of
                     Returns body' \<Rightarrow> Returns (leave (Program body') up)
                   | Throws e \<Rightarrow> Throws e
                   | NoReturn \<Rightarrow> NoReturn)
              | BlockStatement body \<Rightarrow>
                  (case visit_each (\<lambda>c. traverse fuel scopeManager c (Some current)) body of
                     Returns body' \<Rightarrow> Returns (leave (BlockStatement body') up)
                   | Throws e \<Rightarrow> Throws e
                   | NoReturn \<Rightarrow> NoReturn)
              | Node k s slots \<Rightarrow>
                  (case visit_each
                          (visit_each (\<lambda>c. traverse fuel scopeManager c (Some current))) slots of
                     Returns slots' \<Rightarrow> Returns (leave (Node k s slots') up)
                   | Throws e \<Rightarrow> Throws e
                   | NoReturn \<Rightarrow> NoReturn)
              | _ \<Rightarrow> Throws UnknownNodeType))"

definition rewriteCode :: "nat \<Rightarrow> scope_manager \<Rightarrow> node \<Rightarrow> node outcome" where
  "rewriteCode fuel scopeManager ast = traverse fuel scopeManager ast None"

section \<open>Inputs and notions used in the statements\<close>

text \<open>
  A scope in which the helper's canonical name and the name with the suffix 1 are both
  taken, a declaration of the helper shape under another name, and the scope analysis of a
  program that declares the three in one scope.
\<close>

definition colliding_scope :: scope where
  "colliding_scope =
     Scope [''helper'' \<mapsto> 0, ''_interopRequireDefault'' \<mapsto> 1,
            ''_interopRequireDefault1'' \<mapsto> 2] None"

definition helper_declaration :: node where
  "helper_declaration = interop_helper (identifier_node ''helper'') (identifier_node ''e'')"

definition colliding_scopes :: scope_manager where
  "colliding_scopes n =
     (if n = helper_declaration then Some (Scope [''e'' \<mapsto> 3] (Some colliding_scope))
      else None)"

text \<open>
  A statement that the fifth rule of the table is the first to match.
\<close>

definition or_statement :: node where
  "or_statement =
     expression_statement (logical ''||'' (identifier_node ''a'') (identifier_node ''b''))"

text \<open>The sequence statement \<open>a || b, !1;\<close>.\<close>

definition or_sequence_statement :: node where
  "or_sequence_statement =
     expression_statement
       (sequence [logical ''||'' (identifier_node ''a'') (identifier_node ''b''),
                  unary ''!'' (literal (Num 1))])"

text \<open>
  The third case of the test \<open>should throw when missing placeholder values\<close>: the template
  \<open>if (expression1) a = 2; else if (expression2) a = 3;\<close> and an environment that binds
  \<open>expression1\<close> only.
\<close>

abbreviation assignment :: "node \<Rightarrow> node \<Rightarrow> node" where
  "assignment left right \<equiv> Node AssignmentExpression [Str ''=''] [[left], [right]]"

abbreviation binary :: "string \<Rightarrow> node \<Rightarrow> node \<Rightarrow> node" where
  "binary operator left right \<equiv> Node BinaryExpression [Str operator] [[left], [right]]"

definition else_if_template :: node where
  "else_if_template =
     if_statement (ExpressionPlaceholder 1 False)
       (expression_statement (assignment (identifier_node ''a'') (literal (Num 2))))
       [if_statement (ExpressionPlaceholder 2 False)
          (expression_statement (assignment (identifier_node ''a'') (literal (Num 3))))
          []]"

definition partial_environment :: environment where
  "partial_environment =
     [(Expression, 1) \<mapsto> Subtree (binary ''>'' (identifier_node ''b'') (literal (Num 2)))]"

text \<open>
  The statements of the test \<open>should consider statement placeholder modifiers\<close>:
  \<open>a = a + b;\<close> and \<open>if (a) a = a + b;\<close>.
\<close>

definition assignment_statement :: node where
  "assignment_statement =
     expression_statement
       (assignment (identifier_node ''a'')
          (binary ''+'' (identifier_node ''a'') (identifier_node ''b'')))"

definition conditional_statement :: node where
  "conditional_statement = if_statement (identifier_node ''a'') assignment_statement []"

text \<open>
  The occurrences of placeholders in a pattern, each with the subtree of the node that
  stands at the same place: the same descent as \<open>matches\<close>, without any test.
\<close>

fun occurrences :: "node \<Rightarrow> node \<Rightarrow> (key \<times> node) list"
  and occurrences_list :: "node list \<Rightarrow> node list \<Rightarrow> (key \<times> node) list"
  and occurrences_slots :: "node list list \<Rightarrow> node list list \<Rightarrow> (key \<times> node) list"
where
  "occurrences (GenericPlaceholder i) n = [((Generic, i), n)]"
| "occurrences (StatementPlaceholder i expectMultiLine) n = [((Statement, i), n)]"
| "occurrences (ExpressionPlaceholder i allowDeclarations) n = [((Expression, i), n)]"
| "occurrences (Node k s slots) n =
     (case n of Node k' s' slots' \<Rightarrow> occurrences_slots slots slots' | _ \<Rightarrow> [])"
| "occurrences (Program body) n =
     (case n of Program body' \<Rightarrow> occurrences_list body body' | _ \<Rightarrow> [])"
| "occurrences (BlockStatement body) n =
     (case n of BlockStatement body' \<Rightarrow> occurrences_list body body' | _ \<Rightarrow> [])"
| "occurrences_list [] ns = []"
| "occurrences_list (p # ps) ns =
     (case ns of [] \<Rightarrow> [] | n # ns' \<Rightarrow> occurrences p n @ occurrences_list ps ns')"
| "occurrences_slots [] nss = []"
| "occurrences_slots (ps # pss) nss =
     (case nss of
        [] \<Rightarrow> []
      | ns # nss' \<Rightarrow> occurrences_list ps ns @ occurrences_slots pss nss')"

text \<open>The value a placeholder of the given key binds when it stands against a node.\<close>

fun bound_value :: "key \<Rightarrow> node \<Rightarrow> binding option" where
  "bound_value (Generic, i) n = map_option Name (identifier_name n)"
| "bound_value (Statement, i) n = Some (Subtree n)"
| "bound_value (Expression, i) n = Some (Subtree n)"

text \<open>An environment binds each of the listed occurrences to the value found there.\<close>

definition binds :: "environment \<Rightarrow> (key \<times> node) list \<Rightarrow> bool" where
  "binds env occ = (\<forall>(k, t) \<in> set occ. env k \<noteq> None \<and> env k = bound_value k t)"

text \<open>
  The pattern and the two functions of the tests \<open>should accept generic placeholders in
  code\<close> and \<open>should reject generic placeholders being mixed up\<close>:
  \<open>function placeholder1(placeholder2, placeholder3) { return placeholder2 + placeholder3 }\<close>
  against \<open>function sum(a, b) { return a + b; }\<close> and against the same function returning
  \<open>b + a\<close>.
\<close>

definition sum_pattern :: node where
  "sum_pattern =
     function_declaration (GenericPlaceholder 1) [GenericPlaceholder 2, GenericPlaceholder 3]
       [return_statement (binary ''+'' (GenericPlaceholder 2) (GenericPlaceholder 3))]"

definition sum_function :: "node \<Rightarrow> node \<Rightarrow> node" where
  "sum_function left right =
     function_declaration (identifier_node ''sum'') [identifier_node ''a'', identifier_node ''b'']
       [return_statement (binary ''+'' left right)]"

text \<open>
  The trees of the remaining tests of the pattern engine: \<open>print(x);\<close>,
  \<open>var result = a + b;\<close>, \<open>if (result) print(result);\<close>, the function \<open>sum\<close> with a given body,
  \<open>y.prop[2]\<close> and \<open>let a\<close>.
\<close>

definition print_call :: "node \<Rightarrow> node" where
  "print_call argument =
     expression_statement (Node CallExpression [] [[identifier_node ''print''], [argument]])"

definition result_declaration :: node where
  "result_declaration =
     Node VariableDeclaration [Str ''var'']
       [[Node VariableDeclarator []
           [[identifier_node ''result''],
            [binary ''+'' (identifier_node ''a'') (identifier_node ''b'')]]]]"

definition result_conditional :: node where
  "result_conditional = if_statement (identifier_node ''result'') (print_call (identifier_node ''result'')) []"

abbreviation sum_with_body :: "node list \<Rightarrow> node" where
  "sum_with_body body \<equiv>
     function_declaration (identifier_node ''sum'') [identifier_node ''a'', identifier_node ''b''] body"

definition indexed_member :: node where
  "indexed_member =
     Node MemberExpression [Bool True]
       [[member (identifier_node ''y'') ''prop''], [literal (Num 2)]]"

definition let_declaration :: node where
  "let_declaration =
     Node VariableDeclaration [Str ''let''] [[Node VariableDeclarator [] [[identifier_node ''a''], []]]]"

text \<open>
  A node is free of containers when no \<open>Program\<close> node occurs in it, itself included;
  \<open>free_below\<close> says the same of everything below the root of a tree.
\<close>

fun container_free :: "node \<Rightarrow> bool"
  and container_free_list :: "node list \<Rightarrow> bool"
  and container_free_slots :: "node list list \<Rightarrow> bool"
where
  "container_free (Program body) = False"
| "container_free (BlockStatement body) = container_free_list body"
| "container_free (Node k s slots) = container_free_slots slots"
| "container_free (GenericPlaceholder i) = True"
| "container_free (StatementPlaceholder i expectMultiLine) = True"
| "container_free (ExpressionPlaceholder i allowDeclarations) = True"
| "container_free_list [] = True"
| "container_free_list (n # ns) = (container_free n \<and> container_free_list ns)"
| "container_free_slots [] = True"
| "container_free_slots (ns # nss) = (container_free_list ns \<and> container_free_slots nss)"

fun free_below :: "node \<Rightarrow> bool" where
  "free_below (Program body) = container_free_list body"
| "free_below n = container_free n"

text \<open>
  Flattening a statement sequence: a container is replaced, in its place, by its own
  flattened statements; every other statement stays where it is.
\<close>

fun flatten :: "node list \<Rightarrow> node list" where
  "flatten [] = []"
| "flatten (Program inner # ns) = flatten inner @ flatten ns"
| "flatten (n # ns) = n # flatten ns"

text \<open>The transient container is a \<open>Program\<close> node.\<close>

fun is_container :: "node \<Rightarrow> bool" where
  "is_container (Program body) = True"
| "is_container n = False"

text \<open>
  What the traversal establishes for every node it has left: nothing below it is a
  container, and it is a container itself only under a block or program (or as the root).
\<close>

definition settled :: "node option \<Rightarrow> node \<Rightarrow> bool" where
  "settled parent n =
     (free_below n \<and>
      (if is_container n then (case parent of None \<Rightarrow> True | Some p \<Rightarrow> is_block_like p) else True))"

text \<open>The subtrees of a node, the node itself included.\<close>

fun subtrees :: "node \<Rightarrow> node set"
  and subtrees_list :: "node list \<Rightarrow> node set"
  and subtrees_slots :: "node list list \<Rightarrow> node set"
where
  "subtrees (Node k s slots) = insert (Node k s slots) (subtrees_slots slots)"
| "subtrees (Program body) = insert (Program body) (subtrees_list body)"
| "subtrees (BlockStatement body) = insert (BlockStatement body) (subtrees_list body)"
| "subtrees (GenericPlaceholder i) = {GenericPlaceholder i}"
| "subtrees (StatementPlaceholder i m) = {StatementPlaceholder i m}"
| "subtrees (ExpressionPlaceholder i m) = {ExpressionPlaceholder i m}"
| "subtrees_list [] = {}"
| "subtrees_list (n # ns) = subtrees n \<union> subtrees_list ns"
| "subtrees_slots [] = {}"
| "subtrees_slots (ns # nss) = subtrees_list ns \<union> subtrees_slots nss"

text \<open>The two negated literals \<open>!1\<close> and \<open>!0\<close>.\<close>

definition negated_literal :: "node \<Rightarrow> bool" where
  "negated_literal n = (n = unary ''!'' (literal (Num 1)) \<or> n = unary ''!'' (literal (Num 0)))"

text \<open>The kind and the scalar fields of a node that is neither block, program nor placeholder.\<close>

fun head :: "node \<Rightarrow> (kind \<times> scalar list) option" where
  "head (Node k s slots) = Some (k, s)"
| "head n = None"

text \<open>An absent scope analysis, for programs in which no rule renames a declaration.\<close>

definition no_scopes :: scope_manager where
  "no_scopes n = None"

text \<open>
  The programs of the end-to-end scenarios: \<open>if (cond) if (x) y;\<close>, then
  \<open>if (c) (a, b), d; e, f;\<close>, and \<open>f(!1, !0);\<close>.
\<close>

definition nested_conditional :: node where
  "nested_conditional =
     Program
       [if_statement (identifier_node ''cond'')
          (if_statement (identifier_node ''x'') (expression_statement (identifier_node ''y'')) [])
          []]"

definition nested_sequences :: node where
  "nested_sequences =
     Program
       [if_statement (identifier_node ''c'')
          (expression_statement
             (sequence [sequence [identifier_node ''a'', identifier_node ''b''],
                        identifier_node ''d'']))
          [],
        expression_statement (sequence [identifier_node ''e'', identifier_node ''f''])]"

definition negations_call :: node where
  "negations_call =
     Program
       [expression_statement
          (Node CallExpression []
             [[identifier_node ''f''],
              [unary ''!'' (literal (Num 1)), unary ''!'' (literal (Num 0))]])]"

section \<open>Creating the parent directories\<close>

lemma scan_back_pos: "scan_back path i m = Some e \<Longrightarrow> 0 < e \<and> e \<le> i"
  by (induction i arbitrary: m) (auto split: if_splits dest: le_SucI)

text \<open>The parent of an absolute path is an absolute path again, never \<open>"."\<close>.\<close>

lemma dirname_absolute:
  assumes "path \<noteq> []" "hd path = CHR ''/''"
  shows "dirname path \<noteq> [] \<and> hd (dirname path) = CHR ''/'' \<and> dirname path \<noteq> ''.''"
proof (cases "scan_back path (length path - 1) True")
  case None
  with assms show ?thesis by (simp add: dirname_def)
next
  case (Some e)
  then have "0 < e" "e \<le> length path - 1" using scan_back_pos by blast+
  with assms Some show ?thesis
    by (cases path; cases e) (auto simp: dirname_def split: if_splits)
qed

lemma absolute_path_no_result:
  assumes "ensureParentDirExists existsSync mkdirSync path fs = Some r"
  shows "path = [] \<or> hd path \<noteq> CHR ''/''"
proof (rule ensureParentDirExists.raw_induct
    [where P = "\<lambda>_ _ p _ _. p = [] \<or> hd p \<noteq> CHR ''/''", OF _ assms], goal_cases)
  case (1 f existsSync mkdirSync filepath fs r)
  show ?case
  proof (rule ccontr)
    assume "\<not> (filepath = [] \<or> hd filepath \<noteq> CHR ''/'')"
    then have abs: "filepath \<noteq> []" "hd filepath = CHR ''/''" by auto
    from dirname_absolute [OF abs] 1(2)
    have "Option.bind (f existsSync mkdirSync (dirname filepath) fs)
            (\<lambda>r. case r of
                   Inl e \<Rightarrow> Some (Inl e)
                 | Inr fs1 \<Rightarrow>
                     Some (if \<not> existsSync fs1 (dirname filepath)
                           then mkdirSync fs1 (dirname filepath) else Inr fs1)) = Some r"
      by (simp add: Let_def)
    then obtain r1 where "f existsSync mkdirSync (dirname filepath) fs = Some r1"
      by (cases "f existsSync mkdirSync (dirname filepath) fs") simp_all
    from 1(1) [OF this] dirname_absolute [OF abs] show False by simp
  qed
qed

text \<open>
  No call on an absolute path ends, whatever the file system holds and whatever its two
  calls do.
\<close>

lemma absolute_path_diverges:
  "path \<noteq> [] \<Longrightarrow> hd path = CHR ''/'' \<Longrightarrow>
   ensureParentDirExists existsSync mkdirSync path fs = None"
  using absolute_path_no_result [of existsSync mkdirSync path fs]
  by (cases "ensureParentDirExists existsSync mkdirSync path fs") auto

text \<open>
  On a relative path the recursion ends, with a state or with the error of a
  \<open>mkdirSync\<close>: each parent is shorter than the path, and the chain reaches \<open>"."\<close>.
\<close>

lemma dirname_relative:
  assumes "path \<noteq> []" "hd path \<noteq> CHR ''/''"
  shows "dirname path = ''.'' \<or>
         (length (dirname path) < length path \<and> dirname path \<noteq> [] \<and>
          hd (dirname path) \<noteq> CHR ''/'')"
proof (cases "scan_back path (length path - 1) True")
  case None
  with assms show ?thesis by (simp add: dirname_def)
next
  case (Some e)
  then have "0 < e" "e \<le> length path - 1" using scan_back_pos by blast+
  with assms Some show ?thesis
    by (cases path; cases e) (auto simp: dirname_def)
qed

lemma relative_path_ends:
  "path = [] \<or> hd path \<noteq> CHR ''/'' \<Longrightarrow>
   \<exists>r. ensureParentDirExists existsSync mkdirSync path fs = Some r"
proof (induction "length path" arbitrary: path rule: less_induct)
  case less
  show ?case
  proof (cases "path = []")
    case True
    then show ?thesis by (subst ensureParentDirExists.simps) (simp add: dirname_def)
  next
    case False
    with less.prems have rel: "hd path \<noteq> CHR ''/''" by simp
    from dirname_relative [OF False rel] show ?thesis
    proof
      assume "dirname path = ''.''"
      then show ?thesis by (subst ensureParentDirExists.simps) simp
    next
      assume d: "length (dirname path) < length path \<and> dirname path \<noteq> [] \<and>
        hd (dirname path) \<noteq> CHR ''/''"
      with less.hyps [of "dirname path"] obtain r1 where
        "ensureParentDirExists existsSync mkdirSync (dirname path) fs = Some r1" by auto
      with d show ?thesis
        by (subst ensureParentDirExists.simps) (cases r1; simp add: Let_def)
    qed
  qed
qed

text \<open>
  C10. \<open>ensureParentDirExists\<close> is claimed to terminate for every file path, absolute
  paths included. For the absolute path \<open>/out/script.js\<close> the call does not return, on
  any file system: the chain of parents reaches \<open>/\<close>, whose parent is \<open>/\<close> again, and the
  base case only tests for the empty string and for \<open>"."\<close>.
\<close>

theorem ensureParentDirExists_absolute_path:
  "ensureParentDirExists existsSync mkdirSync ''/out/script.js'' fs = None"
  by (rule absolute_path_diverges) simp_all

section \<open>The pattern engine\<close>

lemmas pattern_defs = matches_def bind_key_def identifier_name_def is_statement_def

subsection \<open>The tests of the pattern engine\<close>

text \<open>
  The model agrees with the tests of \<open>matches\<close> and \<open>fill\<close> that the sources hold. A pattern
  without placeholders matches itself with the environment it was given, and filling it
  gives it back.
\<close>

lemma fill_without_placeholders:
  "placeholders t = {} \<Longrightarrow> fill t env = Inr t"
  "placeholders_list ts = {} \<Longrightarrow> fill_list ts env = Inr ts"
  "placeholders_slots tss = {} \<Longrightarrow> fill_slots tss env = Inr tss"
  by (induction t env and ts env and tss env rule: fill_fill_list_fill_slots.induct) auto

lemma matches_without_placeholders:
  "placeholders p = {} \<Longrightarrow> matches_node p p env = Some env"
  "placeholders_list ps = {} \<Longrightarrow> matches_list ps ps env = Some env"
  "placeholders_slots pss = {} \<Longrightarrow> matches_slots pss pss env = Some env"
  by (induction p and ps and pss arbitrary: env and env and env
      rule: placeholders_placeholders_list_placeholders_slots.induct) auto

lemma statement_placeholder_tests:
  "matches (sum_with_body [StatementPlaceholder 1 False, StatementPlaceholder 2 False])
     (sum_with_body [result_declaration, result_conditional]) =
     Some [(Statement, 1) \<mapsto> Subtree result_declaration,
           (Statement, 2) \<mapsto> Subtree result_conditional]"
  "matches (sum_with_body [StatementPlaceholder 1 False, StatementPlaceholder 1 False])
     (sum_with_body [result_declaration, result_declaration]) =
     Some [(Statement, 1) \<mapsto> Subtree result_declaration]"
  "matches (sum_with_body [StatementPlaceholder 1 False, StatementPlaceholder 1 False])
     (sum_with_body [result_declaration, result_conditional]) = None"
  by (simp_all add: pattern_defs result_declaration_def result_conditional_def print_call_def)

lemma expression_placeholder_tests:
  "matches (for_in_statement (ExpressionPlaceholder 1 False) (ExpressionPlaceholder 2 False)
              (print_call (ExpressionPlaceholder 1 False)))
     (for_in_statement (identifier_node ''x'') indexed_member (print_call (identifier_node ''x''))) =
     Some [(Expression, 1) \<mapsto> Subtree (identifier_node ''x''),
           (Expression, 2) \<mapsto> Subtree indexed_member]"
  "matches (for_in_statement (ExpressionPlaceholder 1 False) (ExpressionPlaceholder 2 False)
              (print_call (ExpressionPlaceholder 1 False)))
     (for_in_statement (identifier_node ''x'') indexed_member (print_call indexed_member)) = None"
  "matches (for_of_statement (ExpressionPlaceholder 1 False) (ExpressionPlaceholder 2 False)
              (print_call (identifier_node ''z'')))
     (for_of_statement let_declaration (identifier_node ''b'') (print_call (identifier_node ''z''))) =
     None"
  "matches (for_of_statement (ExpressionPlaceholder 1 True) (ExpressionPlaceholder 2 False)
              (print_call (identifier_node ''z'')))
     (for_of_statement let_declaration (identifier_node ''b'') (print_call (identifier_node ''z''))) =
     Some [(Expression, 1) \<mapsto> Subtree let_declaration,
           (Expression, 2) \<mapsto> Subtree (identifier_node ''b'')]"
  by (simp_all add: pattern_defs indexed_member_def let_declaration_def print_call_def)

lemma fill_missing_tests:
  "fill sum_pattern [(Generic, 2) \<mapsto> Name ''a'', (Generic, 3) \<mapsto> Name ''b''] =
     Inl (MissingBinding ''placeholder'' 1)"
  "fill (function_declaration (identifier_node ''test'') []
           [StatementPlaceholder 1 False, StatementPlaceholder 2 False])
     [(Statement, 2) \<mapsto> Subtree assignment_statement] =
     Inl (MissingBinding ''statement'' 1)"
  by (simp_all add: sum_pattern_def)

subsection \<open>Filling a template\<close>

lemma fill_needs_bindings:
  "fill template env = Inr result \<Longrightarrow> placeholders template \<subseteq> dom env"
  "fill_list templates env = Inr results \<Longrightarrow> placeholders_list templates \<subseteq> dom env"
  "fill_slots slots env = Inr filled \<Longrightarrow> placeholders_slots slots \<subseteq> dom env"
  by (induction template env and templates env and slots env
      arbitrary: result and results and filled rule: fill_fill_list_fill_slots.induct)
    (auto split: option.splits binding.splits sum.splits)

text \<open>
  C7. \<open>fill\<close> fails with an error whenever the template refers to a placeholder key that
  the environment does not bind, whatever else the environment binds.
\<close>

theorem fill_missing_placeholder:
  "k \<in> placeholders template \<Longrightarrow> env k = None \<Longrightarrow> \<exists>e. fill template env = Inl e"
  using fill_needs_bindings(1) [of template env] by (cases "fill template env") auto

theorem fill_missing_placeholder_witness:
  "(Expression, 2) \<in> placeholders else_if_template \<and>
   partial_environment (Expression, 2) = None \<and>
   partial_environment (Expression, 1) \<noteq> None \<and>
   fill else_if_template partial_environment = Inl (MissingBinding ''expression'' 2)"
proof -
  have 1: "(Expression, 2) \<in> placeholders else_if_template"
    by (simp add: else_if_template_def)
  have 2: "partial_environment (Expression, 2) = None"
    by (simp add: partial_environment_def)
  from fill_missing_placeholder [of "(Expression, 2)" else_if_template partial_environment] 1 2
  show ?thesis
    by (simp add: else_if_template_def partial_environment_def)
qed

subsection \<open>The \<open>multiLine\<close> modifier\<close>

lemma compound_not_atomic: "is_compound n \<Longrightarrow> \<not> is_atomic n"
  by (cases n) auto

text \<open>
  C8. A statement placeholder with the \<open>multiLine\<close> modifier matches a statement if and
  only if the statement is of the compound family; it rejects every atomic statement and
  accepts every compound one. Without the modifier it accepts both.
\<close>

theorem multi_line_modifier:
  "is_statement n \<Longrightarrow>
   (matches (StatementPlaceholder i True) n =
      (if is_compound n then Some [(Statement, i) \<mapsto> Subtree n] else None)) \<and>
   (is_atomic n \<longrightarrow> matches (StatementPlaceholder i True) n = None) \<and>
   (is_compound n \<longrightarrow> matches (StatementPlaceholder i True) n \<noteq> None) \<and>
   matches (StatementPlaceholder i False) n = Some [(Statement, i) \<mapsto> Subtree n]"
  by (auto simp: matches_def bind_key_def compound_not_atomic)

theorem multi_line_modifier_witness:
  "is_statement assignment_statement \<and> is_atomic assignment_statement \<and>
   matches (StatementPlaceholder 1 True) assignment_statement = None \<and>
   matches (StatementPlaceholder 1 False) assignment_statement =
     Some [(Statement, 1) \<mapsto> Subtree assignment_statement] \<and>
   is_statement conditional_statement \<and> is_compound conditional_statement \<and>
   matches (StatementPlaceholder 1 True) conditional_statement =
     Some [(Statement, 1) \<mapsto> Subtree conditional_statement]"
proof -
  have 1: "is_statement assignment_statement" "is_atomic assignment_statement"
    by (simp_all add: assignment_statement_def is_statement_def)
  have 2: "is_statement conditional_statement" "is_compound conditional_statement"
    by (simp_all add: conditional_statement_def is_statement_def)
  from multi_line_modifier [OF 1(1), of 1] multi_line_modifier [OF 2(1), of 1] 1 2
  show ?thesis by (auto dest: compound_not_atomic)
qed

text \<open>
  The three cases of the test, with the placeholder as the only statement of a function
  body.
\<close>

lemma statement_modifier_test:
  "matches (function_declaration (identifier_node ''sum'') [identifier_node ''a'', identifier_node ''b'']
              [StatementPlaceholder 1 False])
     (function_declaration (identifier_node ''sum'') [identifier_node ''a'', identifier_node ''b'']
        [assignment_statement]) =
     Some [(Statement, 1) \<mapsto> Subtree assignment_statement]"
  "matches (function_declaration (identifier_node ''sum'') [identifier_node ''a'', identifier_node ''b'']
              [StatementPlaceholder 1 True])
     (function_declaration (identifier_node ''sum'') [identifier_node ''a'', identifier_node ''b'']
        [assignment_statement]) = None"
  "matches (function_declaration (identifier_node ''sum'') [identifier_node ''a'', identifier_node ''b'']
              [StatementPlaceholder 1 True])
     (function_declaration (identifier_node ''sum'') [identifier_node ''a'', identifier_node ''b'']
        [conditional_statement]) =
     Some [(Statement, 1) \<mapsto> Subtree conditional_statement]"
  by (simp_all add: pattern_defs assignment_statement_def conditional_statement_def)

subsection \<open>Repeated placeholders\<close>

lemma bind_key_extends:
  "bind_key k v env = Some env' \<Longrightarrow> env \<subseteq>\<^sub>m env' \<and> env' k = Some v"
  by (auto simp: bind_key_def map_le_def split: option.splits if_splits)

lemma binds_simps:
  "binds env []"
  "binds env (occ @ occ') = (binds env occ \<and> binds env occ')"
  "binds env [(k, t)] = (env k \<noteq> None \<and> env k = bound_value k t)"
  by (auto simp: binds_def)

lemma binds_mono:
  assumes "binds env occ" and "env \<subseteq>\<^sub>m env'"
  shows "binds env' occ"
  unfolding binds_def
proof (clarify)
  fix k t
  assume "(k, t) \<in> set occ"
  with assms(1) have e: "env k \<noteq> None" "env k = bound_value k t"
    unfolding binds_def by blast+
  then obtain v where "env k = Some v" by auto
  with e have v: "env k = Some v" "bound_value k t = Some v" by simp_all
  with assms(2) have "env' k = Some v"
    by (metis domI map_le_def)
  with v show "env' k \<noteq> None \<and> env' k = bound_value k t" by simp
qed

text \<open>
  A successful match only extends the environment it was given, and the environment it
  returns binds every occurrence it passed to the value found there.
\<close>

lemma matches_bindings:
  "matches_node p n env = Some env' \<Longrightarrow> env \<subseteq>\<^sub>m env' \<and> binds env' (occurrences p n)"
  "matches_list ps ns env = Some env' \<Longrightarrow>
     env \<subseteq>\<^sub>m env' \<and> binds env' (occurrences_list ps ns)"
  "matches_slots pss nss env = Some env' \<Longrightarrow>
     env \<subseteq>\<^sub>m env' \<and> binds env' (occurrences_slots pss nss)"
proof (induction p n env and ps ns env and pss nss env arbitrary: env' and env' and env'
    rule: matches_node_matches_list_matches_slots.induct)
  case (1 i n env)
  then show ?case by (auto simp: binds_simps split: option.splits dest: bind_key_extends)
next
  case (2 i expectMultiLine n env)
  then show ?case by (auto simp: binds_simps split: if_splits dest: bind_key_extends)
next
  case (3 i allowDeclarations n env)
  then show ?case by (auto simp: binds_simps split: if_splits dest: bind_key_extends)
next
  case (4 k s slots n env)
  then show ?case by (cases n) (auto simp: binds_simps split: if_splits)
next
  case (5 body n env)
  then show ?case by (cases n) (auto simp: binds_simps)
next
  case (6 body n env)
  then show ?case by (cases n) (auto simp: binds_simps)
next
  case (7 ns env)
  then show ?case by (auto simp: binds_simps split: if_splits)
next
  case (8 p ps ns env)
  from "8.prems" obtain n ns' env1 where ns: "ns = n # ns'"
    and m1: "matches_node p n env = Some env1"
    and m2: "matches_list ps ns' env1 = Some env'"
    by (auto split: list.splits option.splits)
  from "8.IH"(1) [OF ns m1] have a: "env \<subseteq>\<^sub>m env1" and b: "binds env1 (occurrences p n)"
    by auto
  from "8.IH"(2) [OF ns m1 m2] have c: "env1 \<subseteq>\<^sub>m env'"
    and d: "binds env' (occurrences_list ps ns')" by auto
  from a b c d ns show ?case
    by (auto simp: binds_simps intro: map_le_trans binds_mono)
next
  case (9 nss env)
  then show ?case by (auto simp: binds_simps split: if_splits)
next
  case (10 ps pss nss env)
  from "10.prems" obtain ns nss' env1 where nss: "nss = ns # nss'"
    and m1: "matches_list ps ns env = Some env1"
    and m2: "matches_slots pss nss' env1 = Some env'"
    by (auto split: list.splits option.splits)
  from "10.IH"(1) [OF nss m1] have a: "env \<subseteq>\<^sub>m env1"
    and b: "binds env1 (occurrences_list ps ns)" by auto
  from "10.IH"(2) [OF nss m1 m2] have c: "env1 \<subseteq>\<^sub>m env'"
    and d: "binds env' (occurrences_slots pss nss')" by auto
  from a b c d nss show ?case
    by (auto simp: binds_simps intro: map_le_trans binds_mono)
qed

lemma identifier_name_node: "identifier_name n = Some name \<Longrightarrow> n = identifier_node name"
proof (cases n)
  case (Node k s slots)
  assume "identifier_name n = Some name"
  with Node have a: "k = Identifier" "slots = []"
    and b: "(case s of [Str name] \<Rightarrow> Some name | _ \<Rightarrow> None) = Some name"
    by (auto simp: identifier_name_def split: if_splits)
  from b have "s = [Str name]"
    by (cases s; cases "hd s"; cases "tl s") auto
  with a Node show ?thesis by simp
qed (auto simp: identifier_name_def)

lemma bound_value_inj:
  "bound_value k t = Some v \<Longrightarrow> bound_value k t' = Some v \<Longrightarrow> t = t'"
  by (cases k; cases "fst k") (auto dest!: identifier_name_node)

text \<open>
  C9. A match succeeds only if every occurrence of the same placeholder key stands
  against equal values: two occurrences of one key face equal subtrees (for a generic
  placeholder, identifiers of the same name), and the environment binds the key to that
  value. An inconsistency therefore makes the whole match no-match.
\<close>

theorem placeholder_consistency:
  "matches pattern n = Some env \<Longrightarrow>
   (k, t) \<in> set (occurrences pattern n) \<Longrightarrow>
   (k, t') \<in> set (occurrences pattern n) \<Longrightarrow>
   t = t' \<and> env k = bound_value k t \<and> env k \<noteq> None"
proof -
  assume "matches pattern n = Some env"
    and t: "(k, t) \<in> set (occurrences pattern n)"
    and t': "(k, t') \<in> set (occurrences pattern n)"
  then have "binds env (occurrences pattern n)"
    using matches_bindings(1) [of pattern n Map.empty env] by (simp add: matches_def)
  with t t' have "env k \<noteq> None" "env k = bound_value k t" "env k = bound_value k t'"
    by (auto simp: binds_def)
  then show ?thesis using bound_value_inj [of k t _ t'] by auto
qed

lemma sum_pattern_matches:
  "matches sum_pattern (sum_function (identifier_node ''a'') (identifier_node ''b'')) =
     Some [(Generic, 1) \<mapsto> Name ''sum'', (Generic, 2) \<mapsto> Name ''a'',
           (Generic, 3) \<mapsto> Name ''b'']"
  by (simp add: sum_pattern_def sum_function_def pattern_defs)

lemma sum_pattern_occurrences:
  "occurrences sum_pattern (sum_function left right) =
     [((Generic, 1), identifier_node ''sum''), ((Generic, 2), identifier_node ''a''),
      ((Generic, 3), identifier_node ''b''), ((Generic, 2), left), ((Generic, 3), right)]"
  by (simp add: sum_pattern_def sum_function_def)

theorem placeholder_consistency_witness:
  "matches sum_pattern (sum_function (identifier_node ''a'') (identifier_node ''b'')) =
     Some [(Generic, 1) \<mapsto> Name ''sum'', (Generic, 2) \<mapsto> Name ''a'',
           (Generic, 3) \<mapsto> Name ''b''] \<and>
   ((Generic, 2), identifier_node ''a'') \<in>
     set (occurrences sum_pattern (sum_function (identifier_node ''a'') (identifier_node ''b''))) \<and>
   bound_value (Generic, 2) (identifier_node ''a'') = Some (Name ''a'')"
  using placeholder_consistency [OF sum_pattern_matches,
      of "(Generic, 2)" "identifier_node ''a''" "identifier_node ''a''"]
  by (simp add: sum_pattern_matches sum_pattern_occurrences identifier_name_def)

text \<open>The mixed-up function of the test is rejected.\<close>

lemma sum_pattern_mixed_up:
  "matches sum_pattern (sum_function (identifier_node ''b'') (identifier_node ''a'')) = None"
  by (simp add: sum_pattern_def sum_function_def pattern_defs)

section \<open>The \<open>enter\<close> hook\<close>

lemmas sequence_defs = enter_def sequence_expressions_def rewritePatterns_def matches_def
  bind_key_def identifier_name_def is_statement_def interop_helper_def Let_def leave_def
  splice_containers.simps

lemma sequence_expressions_sequence:
  "sequence_expressions (Node ExpressionStatement s [[Node SequenceExpression s' [expressions]]]) =
     Some expressions"
  by (simp add: sequence_expressions_def)

text \<open>
  Visiting a list of nodes returns a list exactly when every node's visit returns, and
  the list holds the results in the order of the nodes.
\<close>

lemma visit_each_Returns:
  "(visit_each f xs = Returns ys) = list_all2 (\<lambda>x y. f x = Returns y) xs ys"
proof (induction xs arbitrary: ys)
  case Nil
  show ?case by auto
next
  case (Cons x xs)
  show ?case
  proof (cases "f x")
    case (Returns y)
    show ?thesis
    proof (cases "visit_each f xs")
      case (Returns rest)
      with Cons [of rest] \<open>f x = Returns y\<close> Cons show ?thesis
        by (cases ys) auto
    next
      case (Throws e)
      with Cons \<open>f x = Returns y\<close> show ?thesis
        by (cases ys) auto
    next
      case NoReturn
      with Cons \<open>f x = Returns y\<close> show ?thesis
        by (cases ys) auto
    qed
  next
    case (Throws e)
    then show ?thesis by (cases ys) auto
  next
    case NoReturn
    then show ?thesis by (cases ys) auto
  qed
qed

text \<open>
  C3. An expression statement whose expression is a comma sequence is replaced by a
  container that holds one expression statement per element of the sequence, in the
  order of the sequence, whatever the rule table holds. Each of these statements is then
  visited in the same pass: the visit of the sequence statement returns exactly when the
  visit of every one of these statements returns, and its result is the container of
  their results, one per element and in order, as \<open>leave\<close> hands it on.
\<close>

theorem sequence_statement_split:
  "enter scopeManager (Node ExpressionStatement s [[Node SequenceExpression s' [expressions]]]) =
     Returns (Some (Program (map expression_statement expressions)), None) \<and>
   (traverse (Suc fuel) scopeManager
       (Node ExpressionStatement s [[Node SequenceExpression s' [expressions]]]) parent =
     Returns result) =
     (\<exists>body.
        list_all2
          (\<lambda>expression statement.
             traverse fuel scopeManager (expression_statement expression)
               (Some (Program (map expression_statement expressions))) = Returns statement)
          expressions body \<and>
        result =
          leave (Program body)
            (case parent of
               None \<Rightarrow> Program (map expression_statement expressions)
             | Some p \<Rightarrow> p))"
proof -
  let ?container = "Program (map expression_statement expressions)"
  let ?visit = "\<lambda>c. traverse fuel scopeManager c (Some ?container)"
  have e: "enter scopeManager
      (Node ExpressionStatement s [[Node SequenceExpression s' [expressions]]]) =
      Returns (Some ?container, None)"
    by (simp add: enter_def sequence_expressions_sequence)
  have "(traverse (Suc fuel) scopeManager
       (Node ExpressionStatement s [[Node SequenceExpression s' [expressions]]]) parent =
     Returns result) =
     (\<exists>body. visit_each ?visit (map expression_statement expressions) = Returns body \<and>
        result = leave (Program body) (case parent of None \<Rightarrow> ?container | Some p \<Rightarrow> p))"
    by (auto simp: e Let_def split: outcome.splits option.splits)
  also have "\<dots> =
     (\<exists>body. list_all2 (\<lambda>expression statement. ?visit (expression_statement expression) =
          Returns statement) expressions body \<and>
        result = leave (Program body) (case parent of None \<Rightarrow> ?container | Some p \<Rightarrow> p))"
    by (simp add: visit_each_Returns list_all2_map1)
  finally show ?thesis using e by simp
qed

text \<open>
  The statement \<open>a || b, !1;\<close>: its two statements are visited, the first becomes
  \<open>if (!a) b;\<close> and the second \<open>false;\<close>, and the program that holds it gets both in its
  place.
\<close>

theorem sequence_statement_split_witness:
  "traverse 4 no_scopes or_sequence_statement None =
     Returns
       (Program
          [if_statement (unary ''!'' (identifier_node ''a''))
             (expression_statement (identifier_node ''b'')) [],
           expression_statement (literal (Bool False))]) \<and>
   rewriteCode 5 no_scopes (Program [or_sequence_statement]) =
     Returns
       (Program
          [if_statement (unary ''!'' (identifier_node ''a''))
             (expression_statement (identifier_node ''b'')) [],
           expression_statement (literal (Bool False))])"
proof -
  let ?container =
    "Program
       [expression_statement (logical ''||'' (identifier_node ''a'') (identifier_node ''b'')),
        expression_statement (unary ''!'' (literal (Num 1)))]"
  have first: "traverse 3 no_scopes
      (expression_statement (logical ''||'' (identifier_node ''a'') (identifier_node ''b'')))
      (Some ?container) =
      Returns (if_statement (unary ''!'' (identifier_node ''a''))
                 (expression_statement (identifier_node ''b'')) [])"
    by (simp add: eval_nat_numeral sequence_defs)
  have second: "traverse 3 no_scopes (expression_statement (unary ''!'' (literal (Num 1))))
      (Some ?container) = Returns (expression_statement (literal (Bool False)))"
    by (simp add: eval_nat_numeral sequence_defs)
  let ?expressions =
    "[logical ''||'' (identifier_node ''a'') (identifier_node ''b''),
      unary ''!'' (literal (Num 1))]"
  let ?result =
    "Program
       [if_statement (unary ''!'' (identifier_node ''a''))
          (expression_statement (identifier_node ''b'')) [],
        expression_statement (literal (Bool False))]"
  have visited: "\<exists>body.
      list_all2
        (\<lambda>expression statement.
           traverse 3 no_scopes (expression_statement expression)
             (Some (Program (map expression_statement ?expressions))) = Returns statement)
        ?expressions body \<and>
      ?result =
        leave (Program body)
          (case None of
             None \<Rightarrow> Program (map expression_statement ?expressions)
           | Some p \<Rightarrow> p)"
    by (rule exI [of _ "[if_statement (unary ''!'' (identifier_node ''a''))
                           (expression_statement (identifier_node ''b'')) [],
                         expression_statement (literal (Bool False))]"])
      (simp add: first second leave_def splice_containers.simps)
  from sequence_statement_split [of no_scopes "[]" "[]" ?expressions 3 None ?result] visited
  have split: "traverse (Suc 3) no_scopes or_sequence_statement None = Returns ?result"
    unfolding or_sequence_statement_def by blast
  have whole: "rewriteCode 5 no_scopes (Program [or_sequence_statement]) =
     Returns
       (Program
          [if_statement (unary ''!'' (identifier_node ''a''))
             (expression_statement (identifier_node ''b'')) [],
           expression_statement (literal (Bool False))])"
    by (simp add: or_sequence_statement_def eval_nat_numeral sequence_defs rewriteCode_def)
  from split whole show ?thesis by simp
qed

lemma apply_rules_skip:
  "\<forall>(p, r) \<in> set before. matches p n = None \<Longrightarrow>
   apply_rules scopeManager (before @ rest) n = apply_rules scopeManager rest n"
  by (induction before) auto

text \<open>
  C4. At a node that is not a comma-sequence statement, the first rule of the table whose
  pattern matches decides what \<open>enter\<close> returns: the node is replaced by that rule's filled
  replacement (renamed as described for function declarations), and the rules after it
  play no part. A node that no pattern matches is left as it is.
\<close>

theorem first_matching_rule_decides:
  "sequence_expressions n = None \<Longrightarrow>
   (rewritePatterns = before @ (pattern, replacement) # after \<longrightarrow>
    (\<forall>(p, r) \<in> set before. matches p n = None) \<longrightarrow>
    matches pattern n = Some found \<longrightarrow>
    enter scopeManager n =
      (case fill replacement found of
         Inl e \<Rightarrow> Throws e
       | Inr result \<Rightarrow>
           if is_function_declaration n \<and> is_function_declaration result
           then (case rename_declaration scopeManager n result of
                   Returns (renamed, r) \<Rightarrow> Returns (Some renamed, Some r)
                 | Throws e \<Rightarrow> Throws e
                 | NoReturn \<Rightarrow> NoReturn)
           else Returns (Some result, None))) \<and>
   ((\<forall>(p, r) \<in> set rewritePatterns. matches p n = None) \<longrightarrow>
    enter scopeManager n = Returns (None, None))"
proof (intro conjI impI)
  assume seq: "sequence_expressions n = None"
  {
    assume "rewritePatterns = before @ (pattern, replacement) # after"
      and "\<forall>(p, r) \<in> set before. matches p n = None"
      and "matches pattern n = Some found"
    then have "apply_rules scopeManager rewritePatterns n =
        apply_rules scopeManager ((pattern, replacement) # after) n"
      and "matches pattern n = Some found"
      using apply_rules_skip [of before n scopeManager "(pattern, replacement) # after"]
      by simp_all
    then show "enter scopeManager n =
      (case fill replacement found of
         Inl e \<Rightarrow> Throws e
       | Inr result \<Rightarrow>
           if is_function_declaration n \<and> is_function_declaration result
           then (case rename_declaration scopeManager n result of
                   Returns (renamed, r) \<Rightarrow> Returns (Some renamed, Some r)
                 | Throws e \<Rightarrow> Throws e
                 | NoReturn \<Rightarrow> NoReturn)
           else Returns (Some result, None))"
      using seq by (simp add: enter_def)
  }
  {
    assume "\<forall>(p, r) \<in> set rewritePatterns. matches p n = None"
    then have "apply_rules scopeManager (rewritePatterns @ []) n = apply_rules scopeManager [] n"
      by (rule apply_rules_skip)
    with seq show "enter scopeManager n = Returns (None, None)"
      by (simp add: enter_def)
  }
qed

theorem first_matching_rule_decides_witness:
  "enter (\<lambda>n. None) or_statement =
     Returns (Some (if_statement (unary ''!'' (identifier_node ''a''))
                      (expression_statement (identifier_node ''b'')) []), None) \<and>
   enter (\<lambda>n. None) (identifier_node ''a'') = Returns (None, None)"
proof -
  have 1: "sequence_expressions or_statement = None"
    by (simp add: or_statement_def sequence_expressions_def)
  have 2: "rewritePatterns =
      take 4 rewritePatterns @ (rewritePatterns ! 4) # drop 5 rewritePatterns"
    by (simp add: rewritePatterns_def)
  have 3: "\<forall>(p, r) \<in> set (take 4 rewritePatterns). matches p or_statement = None"
    by (simp add: rewritePatterns_def or_statement_def pattern_defs)
  have 4: "matches (fst (rewritePatterns ! 4)) or_statement =
      Some [(Expression, 1) \<mapsto> Subtree (identifier_node ''a''),
            (Expression, 2) \<mapsto> Subtree (identifier_node ''b'')]"
    by (simp add: rewritePatterns_def or_statement_def pattern_defs)
  have 5: "sequence_expressions (identifier_node ''a'') = None"
    by (simp add: sequence_expressions_def)
  have 6: "\<forall>(p, r) \<in> set rewritePatterns. matches p (identifier_node ''a'') = None"
    by (simp add: rewritePatterns_def pattern_defs interop_helper_def)
  from first_matching_rule_decides [OF 1, of "take 4 rewritePatterns"
      "fst (rewritePatterns ! 4)" "snd (rewritePatterns ! 4)" "drop 5 rewritePatterns" _
      "\<lambda>n. None"] 2 3 4
    first_matching_rule_decides [OF 5, of _ _ _ _ _ "\<lambda>n. None"] 6
  show ?thesis
    by (simp add: rewritePatterns_def or_statement_def)
qed

section \<open>Naming the replacement of a function declaration\<close>

text \<open>
  What the loop returns, when it returns: a name that is free in the scope, and either
  the name it started with or the name with the text of \<open>i\<close> appended. No other suffix is
  ever tried.
\<close>

lemma while_taken_result:
  assumes "while_taken scope name i newName = Some r"
  shows "set_map scope r = None \<and> (r = newName \<or> r = name @ to_string i)"
proof (rule while_taken.raw_induct
    [where P = "\<lambda>scope name i newName r.
       set_map scope r = None \<and> (r = newName \<or> r = name @ to_string i)", OF _ assms], goal_cases)
  case (1 f scope name i newName r)
  show ?case
  proof (cases "set_map scope newName = None")
    case True
    with 1(2) show ?thesis by simp
  next
    case False
    with 1(2) have "f scope name i (name @ to_string i) = Some r" by simp
    from 1(1) [OF this] show ?thesis by auto
  qed
qed

lemma while_taken_free:
  "set_map scope newName = None \<Longrightarrow> while_taken scope name i newName = Some newName"
  by (subst while_taken.simps) simp

lemma while_taken_second:
  "set_map scope newName \<noteq> None \<Longrightarrow> set_map scope (name @ to_string i) = None \<Longrightarrow>
   while_taken scope name i newName = Some (name @ to_string i)"
  by (subst while_taken.simps) (simp add: while_taken_free)

lemma while_taken_diverges:
  assumes "set_map scope newName \<noteq> None" "set_map scope (name @ to_string i) \<noteq> None"
  shows "while_taken scope name i newName = None"
proof (cases "while_taken scope name i newName")
  case (Some r)
  from while_taken_result [OF this] assms show ?thesis by auto
qed simp

lemma to_string_1: "to_string (Suc 0) = ''1''"
  by (subst to_string.simps) simp

text \<open>
  C1. The driver is claimed to append an increasing numeric suffix, starting at 1, until
  the name is free, so that the search ends in every scope. In a scope that holds
  \<open>_interopRequireDefault\<close> and \<open>_interopRequireDefault1\<close>, visiting a declaration of the
  helper shape does not return: the counter is never incremented, and the loop tries the
  suffix 1 forever.
\<close>

theorem enter_colliding_declaration:
  "enter colliding_scopes helper_declaration = NoReturn"
proof -
  have loop:
    "while_taken colliding_scope ''_interopRequireDefault'' (Suc 0) ''_interopRequireDefault'' = None"
    by (rule while_taken_diverges) (simp_all add: colliding_scope_def to_string_1)
  have "rename_declaration colliding_scopes helper_declaration
          (interop_helper (identifier_node ''_interopRequireDefault'') (identifier_node ''obj'')) =
        NoReturn"
    by (simp add: rename_declaration_def colliding_scopes_def loop id_name_def
        identifier_name_def helper_declaration_def interop_helper_def)
  moreover have "sequence_expressions helper_declaration = None"
    by (simp add: sequence_expressions_def helper_declaration_def interop_helper_def)
  ultimately show ?thesis
    apply (simp add: enter_def rewritePatterns_def)
    apply (simp add: matches_def helper_declaration_def interop_helper_def is_statement_def
        identifier_name_def bind_key_def)
    done
qed

section \<open>The \<open>leave\<close> hook and the traversal\<close>

text \<open>
  The loop of \<open>leave\<close> computes the flattening of the body from index \<open>i\<close> on, and the
  flattening of statements that are settled holds no container.
\<close>

lemma container_free_list_append [simp]:
  "container_free_list (xs @ ys) = (container_free_list xs \<and> container_free_list ys)"
  by (induction xs) auto

lemma container_free_iff: "container_free n = (\<not> is_container n \<and> free_below n)"
  by (cases n) auto

lemma container_free_list_iff: "container_free_list ns = list_all container_free ns"
  by (induction ns) auto

lemma container_free_slots_iff: "container_free_slots nss = list_all (list_all container_free) nss"
  by (induction nss) (auto simp: container_free_list_iff)

lemma flatten_append: "flatten (xs @ ys) = flatten xs @ flatten ys"
  by (induction xs rule: flatten.induct) auto

lemma flatten_other: "\<not> is_container n \<Longrightarrow> flatten (n # ns) = n # flatten ns"
  by (cases n) auto

lemma splice_other:
  "i < length body \<Longrightarrow> \<not> is_container (body ! i) \<Longrightarrow>
   splice_containers body i = splice_containers body (Suc i)"
  by (subst splice_containers.simps) (cases "body ! i"; simp)

lemma splice_container:
  "i < length body \<Longrightarrow> body ! i = Program inner \<Longrightarrow>
   splice_containers body i = splice_containers (take i body @ inner @ drop (Suc i) body) i"
  by (subst splice_containers.simps) simp

lemma splice_containers_flatten:
  "splice_containers body i = take i body @ flatten (drop i body)"
proof (induction body i rule: splice_containers.induct)
  case (1 body i)
  show ?case
  proof (cases "i < length body")
    case False
    then show ?thesis by (subst splice_containers.simps) simp
  next
    case True
    then have d: "drop i body = body ! i # drop (Suc i) body"
      by (simp add: Cons_nth_drop_Suc)
    show ?thesis
    proof (cases "is_container (body ! i)")
      case True
      then obtain inner where inner: "body ! i = Program inner"
        by (cases "body ! i") auto
      have "splice_containers body i =
          splice_containers (take i body @ inner @ drop (Suc i) body) i"
        using \<open>i < length body\<close> inner by (rule splice_container)
      also have "\<dots> = take i body @ flatten (inner @ drop (Suc i) body)"
        using "1.IH"(2) [OF \<open>i < length body\<close> inner] \<open>i < length body\<close> by simp
      also have "\<dots> = take i body @ flatten (drop i body)"
        using d inner by (simp add: flatten_append)
      finally show ?thesis .
    next
      case False
      have "splice_containers body (Suc i) = take (Suc i) body @ flatten (drop (Suc i) body)"
        using "1.IH" \<open>i < length body\<close> False by (cases "body ! i") auto
      with splice_other [OF \<open>i < length body\<close> False] d False \<open>i < length body\<close>
      show ?thesis
        by (simp add: take_Suc_conv_app_nth flatten_other)
    qed
  qed
qed

lemma splice_containers_0: "splice_containers body 0 = flatten body"
  by (simp add: splice_containers_flatten)

lemma container_free_below: "container_free n \<Longrightarrow> free_below n"
  by (cases n) auto

lemma flatten_free:
  "list_all free_below body \<Longrightarrow> container_free_list (flatten body)"
proof (induction body rule: flatten.induct)
  case (2 inner ns)
  then have "container_free_list inner" by simp
  then have "list_all free_below inner"
    by (induction inner) (auto dest: container_free_below)
  with 2 show ?case by simp
qed auto

lemma leave_cases:
  "leave (Program body) parent =
     (if is_block_like parent then Program (flatten body) else BlockStatement (flatten body))"
  "leave (BlockStatement body) parent = BlockStatement (flatten body)"
  "leave (Node k s slots) parent = Node k s slots"
  by (simp_all add: leave_def splice_containers_0)

lemma visit_each_all:
  "visit_each f xs = Returns ys \<Longrightarrow> list_all2 (\<lambda>x y. f x = Returns y) xs ys"
  by (induction xs arbitrary: ys) (auto split: outcome.splits)

text \<open>
  One step of the traversal that has returned: the node in place after \<open>enter\<close>, its
  children visited, and \<open>leave\<close> applied to the result.
\<close>

lemma traverse_step:
  assumes "traverse (Suc fuel) scopeManager n parent = Returns n'"
  obtains target r current up where
    "enter scopeManager n = Returns (target, r)"
    "current = (case target of None \<Rightarrow> n | Some t \<Rightarrow> t)"
    "up = (case parent of None \<Rightarrow> current | Some p \<Rightarrow> p)"
    "(\<exists>body body'. current = Program body \<and>
        visit_each (\<lambda>c. traverse fuel scopeManager c (Some current)) body = Returns body' \<and>
        n' = leave (Program body') up) \<or>
     (\<exists>body body'. current = BlockStatement body \<and>
        visit_each (\<lambda>c. traverse fuel scopeManager c (Some current)) body = Returns body' \<and>
        n' = leave (BlockStatement body') up) \<or>
     (\<exists>k s slots slots'. current = Node k s slots \<and>
        visit_each (visit_each (\<lambda>c. traverse fuel scopeManager c (Some current))) slots =
          Returns slots' \<and>
        n' = leave (Node k s slots') up)"
proof -
  from assms obtain target r where e: "enter scopeManager n = Returns (target, r)"
    by (auto split: outcome.splits)
  define current where "current = (case target of None \<Rightarrow> n | Some t \<Rightarrow> t)"
  define up where "up = (case parent of None \<Rightarrow> current | Some p \<Rightarrow> p)"
  from assms e have step:
    "(case current of
        Program body \<Rightarrow>
          (case visit_each (\<lambda>c. traverse fuel scopeManager c (Some current)) body of
             Returns body' \<Rightarrow> Returns (leave (Program body') up)
           | Throws e \<Rightarrow> Throws e
           | NoReturn \<Rightarrow> NoReturn)
      | BlockStatement body \<Rightarrow>
          (case visit_each (\<lambda>c. traverse fuel scopeManager c (Some current)) body of
             Returns body' \<Rightarrow> Returns (leave (BlockStatement body') up)
           | Throws e \<Rightarrow> Throws e
           | NoReturn \<Rightarrow> NoReturn)
      | Node k s slots \<Rightarrow>
          (case visit_each
                  (visit_each (\<lambda>c. traverse fuel scopeManager c (Some current))) slots of
             Returns slots' \<Rightarrow> Returns (leave (Node k s slots') up)
           | Throws e \<Rightarrow> Throws e
           | NoReturn \<Rightarrow> NoReturn)
      | _ \<Rightarrow> Throws UnknownNodeType) = Returns n'"
    unfolding current_def up_def by (simp add: Let_def)
  have "(\<exists>body body'. current = Program body \<and>
        visit_each (\<lambda>c. traverse fuel scopeManager c (Some current)) body = Returns body' \<and>
        n' = leave (Program body') up) \<or>
     (\<exists>body body'. current = BlockStatement body \<and>
        visit_each (\<lambda>c. traverse fuel scopeManager c (Some current)) body = Returns body' \<and>
        n' = leave (BlockStatement body') up) \<or>
     (\<exists>k s slots slots'. current = Node k s slots \<and>
        visit_each (visit_each (\<lambda>c. traverse fuel scopeManager c (Some current))) slots =
          Returns slots' \<and>
        n' = leave (Node k s slots') up)"
  proof (cases current)
    case (Node k s slots)
    with step show ?thesis by (simp split: outcome.splits)
  next
    case (Program body)
    with step show ?thesis by (simp split: outcome.splits)
  next
    case (BlockStatement body)
    with step show ?thesis by (simp split: outcome.splits)
  qed (use step in simp_all)
  with e current_def up_def show ?thesis by (rule that)
qed

lemma traverse_settled:
  "traverse fuel scopeManager n parent = Returns n' \<Longrightarrow> settled parent n'"
proof (induction fuel arbitrary: n parent n')
  case 0
  then show ?case by simp
next
  case (Suc fuel)
  from Suc.prems obtain target r current up where
    up: "up = (case parent of None \<Rightarrow> current | Some p \<Rightarrow> p)"
    and step:
    "(\<exists>body body'. current = Program body \<and>
        visit_each (\<lambda>c. traverse fuel scopeManager c (Some current)) body = Returns body' \<and>
        n' = leave (Program body') up) \<or>
     (\<exists>body body'. current = BlockStatement body \<and>
        visit_each (\<lambda>c. traverse fuel scopeManager c (Some current)) body = Returns body' \<and>
        n' = leave (BlockStatement body') up) \<or>
     (\<exists>k s slots slots'. current = Node k s slots \<and>
        visit_each (visit_each (\<lambda>c. traverse fuel scopeManager c (Some current))) slots =
          Returns slots' \<and>
        n' = leave (Node k s slots') up)"
    by (rule traverse_step)
  have children: "list_all (settled (Some current)) cs'"
    if "visit_each (\<lambda>c. traverse fuel scopeManager c (Some current)) cs = Returns cs'" for cs cs'
    using visit_each_all [OF that] Suc.IH
    by (induction cs cs' rule: list_all2_induct) auto
  from step consider
    (program) body body' where "current = Program body"
      "visit_each (\<lambda>c. traverse fuel scopeManager c (Some current)) body = Returns body'"
      "n' = leave (Program body') up"
    | (block) body body' where "current = BlockStatement body"
      "visit_each (\<lambda>c. traverse fuel scopeManager c (Some current)) body = Returns body'"
      "n' = leave (BlockStatement body') up"
    | (other) k s slots slots' where "current = Node k s slots"
      "visit_each (visit_each (\<lambda>c. traverse fuel scopeManager c (Some current))) slots =
         Returns slots'"
      "n' = leave (Node k s slots') up"
    by blast
  then show ?case
  proof cases
    case program
    from children [OF program(2)] have "list_all free_below body'"
      by (auto simp: settled_def list_all_iff)
    then have "container_free_list (flatten body')" by (rule flatten_free)
    with program up show ?thesis
      by (auto simp: leave_cases settled_def split: option.splits)
  next
    case block
    from children [OF block(2)] have "list_all free_below body'"
      by (auto simp: settled_def list_all_iff)
    then have "container_free_list (flatten body')" by (rule flatten_free)
    with block show ?thesis
      by (auto simp: leave_cases settled_def)
  next
    case other
    have "list_all (list_all container_free) slots'"
    proof -
      from visit_each_all [OF other(2)]
      have "list_all2 (\<lambda>cs cs'. visit_each (\<lambda>c. traverse fuel scopeManager c (Some current)) cs
              = Returns cs') slots slots'" .
      then show ?thesis
      proof (induction slots slots' rule: list_all2_induct)
        case Nil
        then show ?case by simp
      next
        case (Cons cs slots cs' slots')
        from children [OF Cons(1)] other(1) have "list_all container_free cs'"
          by (auto simp: settled_def list_all_iff container_free_iff split: if_splits)
        with Cons show ?case by simp
      qed
    qed
    with other show ?thesis
      by (simp add: leave_cases settled_def container_free_slots_iff)
  qed
qed

text \<open>
  The fuel is a bound only: a call that has returned or thrown does the same with more
  fuel.
\<close>

lemma visit_each_agree:
  "visit_each f xs \<noteq> NoReturn \<Longrightarrow> (\<And>x. x \<in> set xs \<Longrightarrow> f x \<noteq> NoReturn \<Longrightarrow> g x = f x) \<Longrightarrow>
   visit_each g xs = visit_each f xs"
proof (induction xs)
  case Nil
  then show ?case by simp
next
  case (Cons x xs)
  from Cons.prems(1) have fx: "f x \<noteq> NoReturn" by (auto split: outcome.splits)
  with Cons.prems(2) have gx: "g x = f x" by simp
  show ?case
  proof (cases "f x")
    case (Returns y)
    with Cons.prems(1) have "visit_each f xs \<noteq> NoReturn" by (auto split: outcome.splits)
    with Cons.IH Cons.prems(2) have "visit_each g xs = visit_each f xs" by simp
    with gx Returns show ?thesis by simp
  next
    case (Throws e)
    with gx show ?thesis by simp
  next
    case NoReturn
    with fx show ?thesis by simp
  qed
qed

lemma traverse_more_fuel:
  "traverse fuel scopeManager n parent \<noteq> NoReturn \<Longrightarrow>
   traverse (Suc fuel) scopeManager n parent = traverse fuel scopeManager n parent"
proof (induction fuel arbitrary: n parent)
  case 0
  then show ?case by simp
next
  case (Suc fuel)
  have inner: "visit_each (\<lambda>c. traverse (Suc fuel) scopeManager c p) cs =
      visit_each (\<lambda>c. traverse fuel scopeManager c p) cs"
    if "visit_each (\<lambda>c. traverse fuel scopeManager c p) cs \<noteq> NoReturn" for cs p
    using that Suc.IH by (rule visit_each_agree)
  have outer: "visit_each (visit_each (\<lambda>c. traverse (Suc fuel) scopeManager c p)) slots =
      visit_each (visit_each (\<lambda>c. traverse fuel scopeManager c p)) slots"
    if "visit_each (visit_each (\<lambda>c. traverse fuel scopeManager c p)) slots \<noteq> NoReturn"
    for slots p
    using that inner by (rule visit_each_agree)
  show ?case
  proof (cases "enter scopeManager n")
    case NoReturn
    then show ?thesis by simp
  next
    case (Throws e)
    then show ?thesis by simp
  next
    case (Returns v)
    obtain target r where v: "v = (target, r)" by (cases v)
    define current where "current = (case target of None \<Rightarrow> n | Some t \<Rightarrow> t)"
    show ?thesis
    proof (cases current)
      case (Node k s slots)
      with Suc.prems Returns v
      have "visit_each (visit_each (\<lambda>c. traverse fuel scopeManager c (Some current))) slots
          \<noteq> NoReturn"
        by (auto simp: current_def Let_def split: outcome.splits)
      from outer [OF this] Returns v Node show ?thesis
        unfolding current_def by (simp add: Let_def)
    next
      case (Program body)
      with Suc.prems Returns v
      have "visit_each (\<lambda>c. traverse fuel scopeManager c (Some current)) body \<noteq> NoReturn"
        by (auto simp: current_def Let_def split: outcome.splits)
      from inner [OF this] Returns v Program show ?thesis
        unfolding current_def by (simp add: Let_def)
    next
      case (BlockStatement body)
      with Suc.prems Returns v
      have "visit_each (\<lambda>c. traverse fuel scopeManager c (Some current)) body \<noteq> NoReturn"
        by (auto simp: current_def Let_def split: outcome.splits)
      from inner [OF this] Returns v BlockStatement show ?thesis
        unfolding current_def by (simp add: Let_def)
    qed (use Returns v in \<open>simp_all add: current_def Let_def\<close>)
  qed
qed

lemma rewriteCode_more_fuel:
  "rewriteCode fuel scopeManager ast = Returns ast' \<Longrightarrow>
   rewriteCode (fuel + extra) scopeManager ast = Returns ast'"
proof (induction extra)
  case 0
  then show ?case by simp
next
  case (Suc extra)
  then have "traverse (fuel + extra) scopeManager ast None = Returns ast'"
    by (simp add: rewriteCode_def)
  with traverse_more_fuel [of "fuel + extra" scopeManager ast None] show ?case
    by (simp add: rewriteCode_def)
qed

text \<open>The equations that evaluate the driver on a given tree.\<close>

lemmas driver_defs = rewriteCode_def enter_def sequence_expressions_def rewritePatterns_def
  matches_def bind_key_def identifier_name_def is_statement_def leave_cases Let_def
  interop_helper_def

text \<open>
  C5. After \<open>rewriteCode\<close> has returned, no container is left below the root. The loop
  of \<open>leave\<close> flattens a body: each container among the statements is replaced in its
  place by its own statements, in order. A container under a parent that is neither a
  block nor a program leaves as a block.
\<close>

theorem no_container_remains:
  "(rewriteCode fuel scopeManager ast = Returns ast' \<longrightarrow> free_below ast') \<and>
   splice_containers body 0 = flatten body \<and>
   leave (Program body) parent =
     (if is_block_like parent then Program (flatten body) else BlockStatement (flatten body)) \<and>
   leave (BlockStatement body) parent = BlockStatement (flatten body)"
  using traverse_settled [of fuel scopeManager ast None ast']
  by (simp add: rewriteCode_def settled_def leave_cases splice_containers_0)

theorem no_container_remains_witness:
  "rewriteCode 6 no_scopes nested_sequences =
     Returns
       (Program
          [if_statement (identifier_node ''c'')
             (BlockStatement
                [expression_statement (identifier_node ''a''),
                 expression_statement (identifier_node ''b''),
                 expression_statement (identifier_node ''d'')])
             [],
           expression_statement (identifier_node ''e''),
           expression_statement (identifier_node ''f'')]) \<and>
   free_below
     (Program
        [if_statement (identifier_node ''c'')
           (BlockStatement
              [expression_statement (identifier_node ''a''),
               expression_statement (identifier_node ''b''),
               expression_statement (identifier_node ''d'')])
           [],
         expression_statement (identifier_node ''e''),
         expression_statement (identifier_node ''f'')])"
proof -
  have run: "rewriteCode 6 no_scopes nested_sequences =
     Returns
       (Program
          [if_statement (identifier_node ''c'')
             (BlockStatement
                [expression_statement (identifier_node ''a''),
                 expression_statement (identifier_node ''b''),
                 expression_statement (identifier_node ''d'')])
             [],
           expression_statement (identifier_node ''e''),
           expression_statement (identifier_node ''f'')])"
    by (simp add: nested_sequences_def eval_nat_numeral driver_defs)
  from no_container_remains [of 6 no_scopes nested_sequences _ "[]" "Program []"] run
  show ?thesis by simp
qed

section \<open>Negated literals\<close>

lemma subtrees_list_iff: "subtrees_list ns = (\<Union>n \<in> set ns. subtrees n)"
  by (induction ns) auto

lemma subtrees_slots_iff: "subtrees_slots nss = (\<Union>ns \<in> set nss. subtrees_list ns)"
  by (induction nss) auto

lemma subtrees_self: "n \<in> subtrees n"
  by (cases n) auto

lemma subtrees_trans:
  "m \<in> subtrees n \<Longrightarrow> subtrees m \<subseteq> subtrees n"
  "m \<in> subtrees_list ns \<Longrightarrow> subtrees m \<subseteq> subtrees_list ns"
  "m \<in> subtrees_slots nss \<Longrightarrow> subtrees m \<subseteq> subtrees_slots nss"
  by (induction n and ns and nss rule: subtrees_subtrees_list_subtrees_slots.induct) auto

lemma subtrees_list_append [simp]:
  "subtrees_list (xs @ ys) = subtrees_list xs \<union> subtrees_list ys"
  by (induction xs) auto

lemma flatten_subtrees: "subtrees_list (flatten body) \<subseteq> subtrees_list body"
  by (induction body rule: flatten.induct) auto

text \<open>
  The node that a rule puts in place has the kind and scalar fields of the rule's
  replacement; for the table of the driver, none of them is a negation or a number.
\<close>

lemma fill_head: "fill t env = Inr r \<Longrightarrow> head t = Some h \<Longrightarrow> head r = Some h"
  by (cases t) (auto split: sum.splits)

lemma set_id_name_head: "head (set_id_name n name) = head n"
  by (auto simp: set_id_name_def split: node.splits list.splits)

lemma rename_declaration_head:
  "rename_declaration scopeManager n result = Returns (renamed, r) \<Longrightarrow> head renamed = head result"
  by (auto simp: rename_declaration_def set_id_name_head split: option.splits)

lemma apply_rules_head:
  "apply_rules scopeManager rules n = Returns (Some t, r) \<Longrightarrow>
   \<forall>(p, replacement) \<in> set rules. head replacement \<noteq> None \<Longrightarrow>
   head t \<in> head ` snd ` set rules"
proof (induction rules)
  case Nil
  then show ?case by simp
next
  case (Cons rule rules)
  obtain pattern replacement where rule: "rule = (pattern, replacement)" by (cases rule)
  from Cons.prems(2) rule obtain h where h: "head replacement = Some h" by auto
  show ?case
  proof (cases "matches pattern n")
    case None
    with Cons rule show ?thesis by auto
  next
    case (Some found)
    show ?thesis
    proof (cases "fill replacement found")
      case (Inl e)
      with Cons.prems(1) rule Some show ?thesis by simp
    next
      case (Inr result)
      from fill_head [OF Inr h] have hr: "head result = Some h" .
      from Cons.prems(1) rule Some Inr have "head t = head result"
        by (auto split: if_splits outcome.splits dest: rename_declaration_head)
      with hr h rule show ?thesis by (simp add: image_iff) 
    qed
  qed
qed

lemma enter_head:
  assumes "enter scopeManager n = Returns (Some t, r)"
  shows "is_container t \<or>
         head t \<in> {Some (Literal, [Bool False]), Some (Literal, [Bool True]),
                   Some (Identifier, [Str ''undefined'']), Some (IfStatement, []),
                   Some (WhileStatement, []), Some (DoWhileStatement, []),
                   Some (ForStatement, []), Some (ForInStatement, []), Some (ForOfStatement, []),
                   Some (FunctionDeclaration, [Bool False, Bool False])}"
proof (cases "sequence_expressions n")
  case (Some expressions)
  with assms show ?thesis by (auto simp: enter_def)
next
  case None
  with assms have "apply_rules scopeManager rewritePatterns n = Returns (Some t, r)"
    by (simp add: enter_def)
  then have "head t \<in> head ` snd ` set rewritePatterns"
    by (rule apply_rules_head) (simp add: rewritePatterns_def interop_helper_def)
  then show ?thesis
    by (simp add: rewritePatterns_def interop_helper_def)
qed

lemma enter_negated_literal:
  "enter scopeManager (unary ''!'' (literal (Num 1))) = Returns (Some (literal (Bool False)), None)"
  "enter scopeManager (unary ''!'' (literal (Num 0))) = Returns (Some (literal (Bool True)), None)"
  by (simp_all add: enter_def sequence_expressions_def rewritePatterns_def matches_def)

lemma visit_each_length: "visit_each f xs = Returns ys \<Longrightarrow> length ys = length xs"
  by (induction xs arbitrary: ys) (auto split: outcome.splits)


lemma visit_each_single:
  assumes "visit_each f xs = Returns [y]"
  obtains x where "xs = [x]" "f x = Returns y"
  using visit_each_all [OF assms] by (auto simp: list_all2_Cons2)

lemma not_negated_literal [simp]:
  "\<not> negated_literal (Program body)" "\<not> negated_literal (BlockStatement body)"
  by (simp_all add: negated_literal_def)

text \<open>
  The traversal returns the literal \<open>1\<close> or \<open>0\<close> only for that literal itself, so a negated
  literal in the result would have been one before, and \<open>enter\<close> would have replaced it.
\<close>

lemma traverse_literal:
  assumes "traverse fuel scopeManager c parent = Returns (literal v)"
    and "v = Num 1 \<or> v = Num 0"
  shows "c = literal v"
proof (cases fuel)
  case 0
  with assms show ?thesis by simp
next
  case (Suc fuel')
  with assms(1) have "traverse (Suc fuel') scopeManager c parent = Returns (literal v)" by simp
  then obtain target r current up where
    e: "enter scopeManager c = Returns (target, r)"
    and current: "current = (case target of None \<Rightarrow> c | Some t \<Rightarrow> t)"
    and step:
    "(\<exists>body body'. current = Program body \<and>
        visit_each (\<lambda>c. traverse fuel' scopeManager c (Some current)) body = Returns body' \<and>
        literal v = leave (Program body') up) \<or>
     (\<exists>body body'. current = BlockStatement body \<and>
        visit_each (\<lambda>c. traverse fuel' scopeManager c (Some current)) body = Returns body' \<and>
        literal v = leave (BlockStatement body') up) \<or>
     (\<exists>k s slots slots'. current = Node k s slots \<and>
        visit_each (visit_each (\<lambda>c. traverse fuel' scopeManager c (Some current))) slots =
          Returns slots' \<and>
        literal v = leave (Node k s slots') up)"
    by (rule traverse_step)
  from step obtain k s slots slots' where "current = Node k s slots"
    and v: "visit_each (visit_each (\<lambda>c. traverse fuel' scopeManager c (Some current))) slots =
          Returns slots'"
    and "literal v = Node k s slots'"
    by (auto simp: leave_cases split: if_splits)
  with visit_each_length [OF v] have c: "current = literal v" by simp
  show ?thesis
  proof (cases target)
    case None
    with current c show ?thesis by simp
  next
    case (Some t)
    with current c e have "enter scopeManager c = Returns (Some (literal v), r)" by simp
    from enter_head [OF this] assms(2) show ?thesis by auto
  qed
qed

lemma traverse_clean:
  "traverse fuel scopeManager n parent = Returns n' \<Longrightarrow> \<forall>m \<in> subtrees n'. \<not> negated_literal m"
proof (induction fuel arbitrary: n parent n')
  case 0
  then show ?case by simp
next
  case (Suc fuel)
  from Suc.prems obtain target r current up where
    e: "enter scopeManager n = Returns (target, r)"
    and current: "current = (case target of None \<Rightarrow> n | Some t \<Rightarrow> t)"
    and step:
    "(\<exists>body body'. current = Program body \<and>
        visit_each (\<lambda>c. traverse fuel scopeManager c (Some current)) body = Returns body' \<and>
        n' = leave (Program body') up) \<or>
     (\<exists>body body'. current = BlockStatement body \<and>
        visit_each (\<lambda>c. traverse fuel scopeManager c (Some current)) body = Returns body' \<and>
        n' = leave (BlockStatement body') up) \<or>
     (\<exists>k s slots slots'. current = Node k s slots \<and>
        visit_each (visit_each (\<lambda>c. traverse fuel scopeManager c (Some current))) slots =
          Returns slots' \<and>
        n' = leave (Node k s slots') up)"
    by (rule traverse_step)
  have children: "\<forall>m \<in> subtrees_list cs'. \<not> negated_literal m"
    if "visit_each (\<lambda>c. traverse fuel scopeManager c (Some current)) cs = Returns cs'" for cs cs'
    using visit_each_all [OF that] Suc.IH
    by (induction cs cs' rule: list_all2_induct) auto
  from step consider
    (program) body body' where "current = Program body"
      "visit_each (\<lambda>c. traverse fuel scopeManager c (Some current)) body = Returns body'"
      "n' = leave (Program body') up"
    | (block) body body' where "current = BlockStatement body"
      "visit_each (\<lambda>c. traverse fuel scopeManager c (Some current)) body = Returns body'"
      "n' = leave (BlockStatement body') up"
    | (other) k s slots slots' where "current = Node k s slots"
      "visit_each (visit_each (\<lambda>c. traverse fuel scopeManager c (Some current))) slots =
         Returns slots'"
      "n' = leave (Node k s slots') up"
    by blast
  then show ?case
  proof cases
    case program
    from children [OF program(2)] flatten_subtrees [of body'] program(3) show ?thesis
      by (auto simp: leave_cases)
  next
    case block
    from children [OF block(2)] flatten_subtrees [of body'] block(3) show ?thesis
      by (auto simp: leave_cases)
  next
    case other
    have below: "\<forall>m \<in> subtrees_slots slots'. \<not> negated_literal m"
    proof -
      from visit_each_all [OF other(2)]
      have "list_all2 (\<lambda>cs cs'. visit_each (\<lambda>c. traverse fuel scopeManager c (Some current)) cs
              = Returns cs') slots slots'" .
      then show ?thesis
      proof (induction slots slots' rule: list_all2_induct)
        case Nil
        then show ?case by simp
      next
        case (Cons cs slots cs' slots')
        from children [OF Cons(1)] Cons(3) show ?case by auto
      qed
    qed
    have top: "\<not> negated_literal (Node k s slots')"
    proof
      assume "negated_literal (Node k s slots')"
      then obtain v where v: "v = Num 1 \<or> v = Num 0"
        and shape: "k = UnaryExpression" "s = [Str ''!'']" "slots' = [[literal v]]"
        by (auto simp: negated_literal_def)
      from other(2) shape(3) obtain cs where "slots = [cs]"
        and "visit_each (\<lambda>c. traverse fuel scopeManager c (Some current)) cs = Returns [literal v]"
        by (auto elim: visit_each_single)
      then obtain c where cs: "slots = [[c]]"
        and "traverse fuel scopeManager c (Some current) = Returns (literal v)"
        by (auto elim: visit_each_single)
      from traverse_literal [OF this(2) v] cs other(1) shape
      have c: "current = unary ''!'' (literal v)" by simp
      show False
      proof (cases target)
        case None
        with current c have "n = unary ''!'' (literal v)" by simp
        with e None v enter_negated_literal [of scopeManager] show False by auto
      next
        case (Some t)
        with current c e have "enter scopeManager n = Returns (Some (unary ''!'' (literal v)), r)"
          by simp
        from enter_head [OF this] show False by simp
      qed
    qed
    from below top other(3) show ?thesis by (simp add: leave_cases)
  qed
qed

lemma traverse_negated:
  "traverse (Suc fuel) scopeManager (unary ''!'' (literal (Num 1))) parent =
     Returns (literal (Bool False))"
  "traverse (Suc fuel) scopeManager (unary ''!'' (literal (Num 0))) parent =
     Returns (literal (Bool True))"
  by (simp_all add: enter_negated_literal leave_cases)

text \<open>
  C6. Visiting \<open>!1\<close> replaces it by \<open>false\<close> and visiting \<open>!0\<close> replaces it by \<open>true\<close>,
  wherever the node stands and whatever its parent is; and since every node of the tree
  is visited, those the rules put there included, the tree that \<open>rewriteCode\<close> returns
  holds neither \<open>!1\<close> nor \<open>!0\<close> anywhere.
\<close>

theorem negated_literals_rewritten:
  "enter scopeManager (unary ''!'' (literal (Num 1))) =
     Returns (Some (literal (Bool False)), None) \<and>
   enter scopeManager (unary ''!'' (literal (Num 0))) =
     Returns (Some (literal (Bool True)), None) \<and>
   traverse (Suc depth) scopeManager (unary ''!'' (literal (Num 1))) parent =
     Returns (literal (Bool False)) \<and>
   traverse (Suc depth) scopeManager (unary ''!'' (literal (Num 0))) parent =
     Returns (literal (Bool True)) \<and>
   (rewriteCode fuel scopeManager ast = Returns ast' \<longrightarrow>
      unary ''!'' (literal (Num 1)) \<notin> subtrees ast' \<and>
      unary ''!'' (literal (Num 0)) \<notin> subtrees ast')"
proof -
  have "rewriteCode fuel scopeManager ast = Returns ast' \<longrightarrow>
      unary ''!'' (literal (Num 1)) \<notin> subtrees ast' \<and>
      unary ''!'' (literal (Num 0)) \<notin> subtrees ast'"
    using traverse_clean [of fuel scopeManager ast None ast']
    by (auto simp: rewriteCode_def negated_literal_def)
  with enter_negated_literal [of scopeManager] traverse_negated [of depth scopeManager parent]
  show ?thesis by blast
qed

theorem negated_literals_rewritten_witness:
  "rewriteCode 4 no_scopes negations_call =
     Returns
       (Program
          [expression_statement
             (Node CallExpression []
                [[identifier_node ''f''], [literal (Bool False), literal (Bool True)]])]) \<and>
   unary ''!'' (literal (Num 1)) \<notin>
     subtrees
       (Program
          [expression_statement
             (Node CallExpression []
                [[identifier_node ''f''], [literal (Bool False), literal (Bool True)]])])"
proof -
  have run: "rewriteCode 4 no_scopes negations_call =
     Returns
       (Program
          [expression_statement
             (Node CallExpression []
                [[identifier_node ''f''], [literal (Bool False), literal (Bool True)]])])"
    by (simp add: negations_call_def eval_nat_numeral driver_defs)
  from negated_literals_rewritten [where scopeManager = no_scopes and fuel = 4
      and ast = negations_call] run
  show ?thesis by simp
qed

section \<open>Bodies without braces\<close>

text \<open>
  What the driver returns for \<open>if (cond) if (x) y;\<close>: the outer body, a conditional, is
  wrapped; the inner body \<open>y;\<close> is atomic and stays bare.
\<close>

lemma nested_conditional_result:
  "rewriteCode 6 no_scopes nested_conditional =
     Returns
       (Program
          [if_statement (identifier_node ''cond'')
             (BlockStatement
                [if_statement (identifier_node ''x'')
                   (expression_statement (identifier_node ''y'')) []])
             []])"
  by (simp add: nested_conditional_def eval_nat_numeral driver_defs)

text \<open>
  C2 as claimed: every bare body of an if, while, do or for statement is wrapped in a
  block, and \<open>if (cond) if (x) y;\<close> becomes \<open>if (cond) { if (x) { y; } }\<close>. The driver
  does not return that tree: the patterns of the table carry the \<open>multiLine\<close> modifier,
  and the atomic body \<open>y;\<close> does not match it.
\<close>

theorem nested_conditional_counterexample:
  "rewriteCode 6 no_scopes nested_conditional =
     Returns
       (Program
          [if_statement (identifier_node ''cond'')
             (BlockStatement
                [if_statement (identifier_node ''x'')
                   (expression_statement (identifier_node ''y'')) []])
             []]) \<and>
   rewriteCode 6 no_scopes nested_conditional \<noteq>
     Returns
       (Program
          [if_statement (identifier_node ''cond'')
             (BlockStatement
                [if_statement (identifier_node ''x'')
                   (BlockStatement [expression_statement (identifier_node ''y'')]) []])
             []])"
  by (simp add: nested_conditional_result)

lemmas enter_defs = enter_def sequence_expressions_def rewritePatterns_def matches_def
  bind_key_def is_statement_def interop_helper_def identifier_name_def

text \<open>
  C2 as amended. A visited if statement without else branch, while, do-while, for
  statement with its three head parts, for-in or for-of statement whose body has no
  braces and is a compound statement is replaced by the same form with the body wrapped
  in a block. An if statement whose body is atomic is left as it is. So
  \<open>if (cond) if (x) y;\<close> becomes \<open>if (cond) { if (x) y; }\<close>.
\<close>

theorem compound_body_wrapped:
  "is_compound body \<Longrightarrow> \<not> is_block_like body \<Longrightarrow> is_expression test \<Longrightarrow>
   enter scopeManager (if_statement test body []) =
     Returns (Some (if_statement test (BlockStatement [body]) []), None) \<and>
   enter scopeManager (while_statement test body) =
     Returns (Some (while_statement test (BlockStatement [body])), None) \<and>
   enter scopeManager (do_while_statement body test) =
     Returns (Some (do_while_statement (BlockStatement [body]) test), None) \<and>
   (is_expression init \<or> is_declaration init \<longrightarrow> is_expression update \<longrightarrow>
    enter scopeManager (for_statement init test update body) =
      Returns (Some (for_statement init test update (BlockStatement [body])), None)) \<and>
   (is_expression left \<or> is_declaration left \<longrightarrow>
    enter scopeManager (for_in_statement left test body) =
      Returns (Some (for_in_statement left test (BlockStatement [body])), None) \<and>
    enter scopeManager (for_of_statement left test body) =
      Returns (Some (for_of_statement left test (BlockStatement [body])), None)) \<and>
   (is_atomic atom \<longrightarrow>
    enter scopeManager (if_statement test atom []) = Returns (None, None)) \<and>
   rewriteCode 6 no_scopes nested_conditional =
     Returns
       (Program
          [if_statement (identifier_node ''cond'')
             (BlockStatement
                [if_statement (identifier_node ''x'')
                   (expression_statement (identifier_node ''y'')) []])
             []])"
  by (auto simp: enter_defs nested_conditional_result dest: compound_not_atomic)

theorem compound_body_wrapped_witness:
  "enter no_scopes
     (if_statement (identifier_node ''cond'')
        (if_statement (identifier_node ''x'') (expression_statement (identifier_node ''y'')) [])
        []) =
     Returns
       (Some (if_statement (identifier_node ''cond'')
                (BlockStatement
                   [if_statement (identifier_node ''x'')
                      (expression_statement (identifier_node ''y'')) []])
                []), None) \<and>
   enter no_scopes
     (for_of_statement (identifier_node ''k'') (identifier_node ''cond'')
        (if_statement (identifier_node ''x'') (expression_statement (identifier_node ''y'')) [])) =
     Returns
       (Some (for_of_statement (identifier_node ''k'') (identifier_node ''cond'')
                (BlockStatement
                   [if_statement (identifier_node ''x'')
                      (expression_statement (identifier_node ''y'')) []])), None) \<and>
   enter no_scopes
     (if_statement (identifier_node ''cond'') (expression_statement (identifier_node ''y'')) []) =
     Returns (None, None)"
proof -
  have 1: "is_compound
      (if_statement (identifier_node ''x'') (expression_statement (identifier_node ''y'')) [])"
    by simp
  have 2: "is_expression (identifier_node ''cond'')"
    by simp
  have 3: "is_expression (identifier_node ''k'')"
    "is_atomic (expression_statement (identifier_node ''y''))"
    by simp_all
  have 4: "\<not> is_block_like
      (if_statement (identifier_node ''x'') (expression_statement (identifier_node ''y'')) [])"
    by simp
  from compound_body_wrapped [OF 1 4 2,
      where left = "identifier_node ''k''"
        and atom = "expression_statement (identifier_node ''y'')"
        and scopeManager = no_scopes] 3
  show ?thesis by simp
qed

end
